theory Spec2Isabelle
  imports Complex_Main "HOL-Library.Multiset" "HOL-Library.AList"
begin

section \<open>Data model of nikke\_dmg.py\<close>

text \<open>
  Python floats are modelled as exact real numbers (no rounding, no NaN); the two
  infinities that the code passes around as interval bounds are kept apart in the type
  \<open>xtime\<close>, ordered the way Python orders \<open>-math.inf\<close>, finite floats and
  \<open>math.inf\<close>. Python integers are \<open>int\<close>, list indices are \<open>nat\<close>.

  The functions keep the names of the source. Where a parameter of the source has the
  name of a field of \<open>ModifierCache\<close> or of a library constant, it is written shorter:
  \<open>atk\<close>, \<open>dfn\<close>, \<open>core\<close>, \<open>rng\<close>, \<open>fb\<close> and \<open>elem\<close> for \<open>attack\<close>,
  \<open>defense\<close>, \<open>core_hit\<close>, \<open>range_bonus\<close>, \<open>full_burst\<close> and
  \<open>element_bonus\<close>, and \<open>normalize'\<close> for \<open>normalize\<close>. The keys of a buff
  dictionary carry the prefix \<open>b_\<close>, those of a damage tag the prefix \<open>t_\<close>.
\<close>

datatype xtime = MInf | Fin real | PInf

instantiation xtime :: linorder
begin

fun less_eq_xtime :: "xtime \<Rightarrow> xtime \<Rightarrow> bool" where
  "less_eq_xtime MInf y = True"
| "less_eq_xtime (Fin a) MInf = False"
| "less_eq_xtime (Fin a) (Fin b) = (a \<le> b)"
| "less_eq_xtime (Fin a) PInf = True"
| "less_eq_xtime PInf MInf = False"
| "less_eq_xtime PInf (Fin b) = False"
| "less_eq_xtime PInf PInf = True"

definition less_xtime :: "xtime \<Rightarrow> xtime \<Rightarrow> bool" where
  "less_xtime x y = (x \<le> y \<and> \<not> y \<le> x)"

instance
proof
  fix x y z :: xtime
  show "(x < y) = (x \<le> y \<and> \<not> y \<le> x)"
    by (simp add: less_xtime_def)
  show "x \<le> x"
    by (cases x) simp_all
  show "x \<le> y \<Longrightarrow> y \<le> z \<Longrightarrow> x \<le> z"
    by (cases x; cases y; cases z) simp_all
  show "x \<le> y \<Longrightarrow> y \<le> x \<Longrightarrow> x = y"
    by (cases x; cases y) simp_all
  show "x \<le> y \<or> y \<le> x"
    by (cases x; cases y) auto
qed

end

text \<open>\<open>math.isinf\<close>.\<close>

fun isinf :: "xtime \<Rightarrow> bool" where
  "isinf MInf = True"
| "isinf (Fin a) = False"
| "isinf PInf = True"

text \<open>Float addition \<open>x + d\<close> with a finite right operand \<open>d\<close>.\<close>

fun xadd :: "xtime \<Rightarrow> real \<Rightarrow> xtime" where
  "xadd MInf d = MInf"
| "xadd (Fin a) d = Fin (a + d)"
| "xadd PInf d = PInf"

text \<open>
  The value of a float known to be finite. The sweeps apply it only to
  \<open>min(end, t_1)\<close> and \<open>max(start, t_0)\<close> after the guard
  \<open>start >= t_1 or end < t_0\<close> has let the damage tag through, and both are finite
  there (lemma \<open>overlap_operands_finite\<close>).
\<close>

fun fin :: "xtime \<Rightarrow> real" where
  "fin (Fin a) = a"
| "fin MInf = 0"
| "fin PInf = 0"

datatype error = KeyError | IndexError | ValueError

text \<open>
  The value stored under an override key of a buff dictionary (\<open>core_hit\<close>,
  \<open>range_bonus\<close>, \<open>full_burst\<close>, \<open>element_bonus\<close>): an \<open>int\<close>, a
  \<open>bool\<close>, or anything else.
\<close>

datatype flagval = IntVal int | BoolVal bool | OtherVal

text \<open>
  \<open>val if isinstance(val, int) else 1\<close>. In Python \<open>bool\<close> is a subclass of
  \<open>int\<close>, so a boolean is added as it is: \<open>True\<close> counts 1 and \<open>False\<close> counts 0.
\<close>

fun flag_inc :: "flagval \<Rightarrow> int" where
  "flag_inc (IntVal n) = n"
| "flag_inc (BoolVal b) = (if b then 1 else 0)"
| "flag_inc OtherVal = 1"

text \<open>
  A buff dictionary. \<open>start\<close> and \<open>end\<close> are read unconditionally by the sweeps;
  every other key is optional (\<open>None\<close> when the key is absent).
\<close>

record buff =
  b_start :: xtime
  b_end :: xtime
  b_stacks :: "int option"
  b_attack :: "real option"
  b_charge_dmg :: "real option"
  b_full_charge_dmg :: "real option"
  b_damage_taken :: "real option"
  b_element_dmg :: "real option"
  b_damage_up :: "real option"
  b_defense :: "real option"
  b_flat_atk :: "real option"
  b_crit_rate :: "real option"
  b_crit_dmg :: "real option"
  b_core_dmg :: "real option"
  b_range_dmg :: "real option"
  b_full_burst_dmg :: "real option"
  b_core_hit :: "flagval option"
  b_range_bonus :: "flagval option"
  b_full_burst :: "flagval option"
  b_element_bonus :: "flagval option"

text \<open>class \<open>ModifierCache\<close>.\<close>

record ModifierCache =
  attack :: real
  charge_dmg :: real
  damage_taken :: real
  element_dmg :: real
  damage_up :: real
  defense :: real
  flat_atk :: real
  crit_rate :: real
  crit_dmg :: real
  core_dmg :: real
  range_dmg :: real
  full_burst_dmg :: real
  core_hit :: int
  range_bonus :: int
  full_burst :: int
  element_bonus :: int

text \<open>\<open>if key in buff: stmt(buff[key])\<close>.\<close>

definition when_in :: "'a option \<Rightarrow> ('a \<Rightarrow> 's \<Rightarrow> 's) \<Rightarrow> 's \<Rightarrow> 's" where
  "when_in field stmt self = (case field of None \<Rightarrow> self | Some v \<Rightarrow> stmt v self)"

text \<open>A block of statements, run in order on the object they mutate.\<close>

definition block :: "('s \<Rightarrow> 's) list \<Rightarrow> 's \<Rightarrow> 's" where
  "block stmts self = fold (\<lambda>stmt. stmt) stmts self"

text \<open>\<open>int(buff.get('stacks', 1))\<close>, for an integer stack count.\<close>

definition stacks_of :: "buff \<Rightarrow> real" where
  "stacks_of b = real_of_int (case b_stacks b of None \<Rightarrow> 1 | Some n \<Rightarrow> n)"

text \<open>\<open>ModifierCache.add_buff\<close>.\<close>

definition add_buff :: "ModifierCache \<Rightarrow> buff \<Rightarrow> ModifierCache" where
  "add_buff self b = (let stacks = stacks_of b in block [
     when_in (b_attack b) (\<lambda>v s. s\<lparr>attack := attack s + v * stacks\<rparr>),
     when_in (b_charge_dmg b) (\<lambda>v s. s\<lparr>charge_dmg := charge_dmg s + v * stacks\<rparr>),
     when_in (b_full_charge_dmg b) (\<lambda>v s. s\<lparr>charge_dmg := charge_dmg s + (v - 100) * stacks\<rparr>),
     when_in (b_damage_taken b) (\<lambda>v s. s\<lparr>damage_taken := damage_taken s + v * stacks\<rparr>),
     when_in (b_element_dmg b) (\<lambda>v s. s\<lparr>element_dmg := element_dmg s + v * stacks\<rparr>),
     when_in (b_damage_up b) (\<lambda>v s. s\<lparr>damage_up := damage_up s + v * stacks\<rparr>),
     when_in (b_defense b) (\<lambda>v s. s\<lparr>defense := defense s + v * stacks\<rparr>),
     when_in (b_flat_atk b) (\<lambda>v s. s\<lparr>flat_atk := flat_atk s + v * stacks\<rparr>),
     when_in (b_crit_rate b) (\<lambda>v s. s\<lparr>crit_rate := crit_rate s + v * stacks\<rparr>),
     when_in (b_crit_dmg b) (\<lambda>v s. s\<lparr>crit_dmg := crit_dmg s + v * stacks\<rparr>),
     when_in (b_core_dmg b) (\<lambda>v s. s\<lparr>crit_dmg := crit_dmg s + v * stacks\<rparr>),
     when_in (b_range_dmg b) (\<lambda>v s. s\<lparr>crit_dmg := crit_dmg s + v * stacks\<rparr>),
     when_in (b_full_burst_dmg b) (\<lambda>v s. s\<lparr>crit_dmg := crit_dmg s + v * stacks\<rparr>),
     when_in (b_core_hit b) (\<lambda>val s. s\<lparr>core_hit := core_hit s + flag_inc val\<rparr>),
     when_in (b_range_bonus b) (\<lambda>val s. s\<lparr>range_bonus := range_bonus s + flag_inc val\<rparr>),
     when_in (b_full_burst b) (\<lambda>val s. s\<lparr>full_burst := full_burst s + flag_inc val\<rparr>),
     when_in (b_element_bonus b) (\<lambda>val s. s\<lparr>element_bonus := element_bonus s + flag_inc val\<rparr>)
   ] self)"

text \<open>\<open>ModifierCache.remove_buff\<close>.\<close>

definition remove_buff :: "ModifierCache \<Rightarrow> buff \<Rightarrow> ModifierCache" where
  "remove_buff self b = (let stacks = stacks_of b in block [
     when_in (b_attack b) (\<lambda>v s. s\<lparr>attack := attack s - v * stacks\<rparr>),
     when_in (b_charge_dmg b) (\<lambda>v s. s\<lparr>charge_dmg := charge_dmg s - v * stacks\<rparr>),
     when_in (b_full_charge_dmg b) (\<lambda>v s. s\<lparr>charge_dmg := charge_dmg s - (v - 100) * stacks\<rparr>),
     when_in (b_damage_taken b) (\<lambda>v s. s\<lparr>damage_taken := damage_taken s - v * stacks\<rparr>),
     when_in (b_element_dmg b) (\<lambda>v s. s\<lparr>element_dmg := element_dmg s - v * stacks\<rparr>),
     when_in (b_damage_up b) (\<lambda>v s. s\<lparr>damage_up := damage_up s - v * stacks\<rparr>),
     when_in (b_defense b) (\<lambda>v s. s\<lparr>defense := defense s - v * stacks\<rparr>),
     when_in (b_flat_atk b) (\<lambda>v s. s\<lparr>flat_atk := flat_atk s - v * stacks\<rparr>),
     when_in (b_crit_rate b) (\<lambda>v s. s\<lparr>crit_rate := crit_rate s - v * stacks\<rparr>),
     when_in (b_crit_dmg b) (\<lambda>v s. s\<lparr>crit_dmg := crit_dmg s - v * stacks\<rparr>),
     when_in (b_core_dmg b) (\<lambda>v s. s\<lparr>crit_dmg := crit_dmg s - v * stacks\<rparr>),
     when_in (b_range_dmg b) (\<lambda>v s. s\<lparr>crit_dmg := crit_dmg s - v * stacks\<rparr>),
     when_in (b_full_burst_dmg b) (\<lambda>v s. s\<lparr>crit_dmg := crit_dmg s - v * stacks\<rparr>),
     when_in (b_core_hit b) (\<lambda>val s. s\<lparr>core_hit := core_hit s - flag_inc val\<rparr>),
     when_in (b_range_bonus b) (\<lambda>val s. s\<lparr>range_bonus := range_bonus s - flag_inc val\<rparr>),
     when_in (b_full_burst b) (\<lambda>val s. s\<lparr>full_burst := full_burst s - flag_inc val\<rparr>),
     when_in (b_element_bonus b) (\<lambda>val s. s\<lparr>element_bonus := element_bonus s - flag_inc val\<rparr>)
   ] self)"

text \<open>
  \<open>ModifierCache.add_buffs\<close> on a list without index arguments
  (\<open>for buff in buffs: self.add_buff(buff)\<close>), and on \<open>None\<close>, which is neither a
  \<open>dict\<close> nor a \<open>list\<close> and leaves the cache as it is.
\<close>

definition add_buffs :: "ModifierCache \<Rightarrow> buff list \<Rightarrow> ModifierCache" where
  "add_buffs self buffs = foldl add_buff self buffs"

definition add_buffs_opt :: "ModifierCache \<Rightarrow> buff list option \<Rightarrow> ModifierCache" where
  "add_buffs_opt self buffs = (case buffs of None \<Rightarrow> self | Some bs \<Rightarrow> add_buffs self bs)"

text \<open>
  \<open>add_buffs(buffs, start, end)\<close>: \<open>for i in range(start, end): self.add_buff(buffs[i])\<close>.
  Reading \<open>buffs[i]\<close> past the end of the list raises \<open>IndexError\<close>.
\<close>

function add_buffs_range ::
  "ModifierCache \<Rightarrow> buff list \<Rightarrow> nat \<Rightarrow> nat \<Rightarrow> error + ModifierCache" where
  "add_buffs_range self buffs i e =
     (if i < e then
        (if i < length buffs then add_buffs_range (add_buff self (buffs ! i)) buffs (Suc i) e
         else Inl IndexError)
      else Inr self)"
  by pat_completeness auto
termination
  by (relation "measure (\<lambda>(self, buffs, i, e). e - i)") auto

text \<open>\<open>remove_buffs(buffs, start, end)\<close>.\<close>

function remove_buffs_range ::
  "ModifierCache \<Rightarrow> buff list \<Rightarrow> nat \<Rightarrow> nat \<Rightarrow> error + ModifierCache" where
  "remove_buffs_range self buffs i e =
     (if i < e then
        (if i < length buffs then remove_buffs_range (remove_buff self (buffs ! i)) buffs (Suc i) e
         else Inl IndexError)
      else Inr self)"
  by pat_completeness auto
termination
  by (relation "measure (\<lambda>(self, buffs, i, e). e - i)") auto

text \<open>
  \<open>NIKKE.generate_cache\<close> with its default keyword arguments (\<open>crit_rate=15\<close>,
  \<open>crit_dmg=50\<close>, \<open>core_dmg=100\<close>, \<open>range_dmg=30\<close>, \<open>full_burst_dmg=50\<close>); the
  flag counters default to 0 in \<open>ModifierCache.__init__\<close>.
\<close>

definition baseline :: ModifierCache where
  "baseline = \<lparr>attack = 100, charge_dmg = 100, damage_taken = 100, element_dmg = 110,
     damage_up = 100, defense = 100, flat_atk = 0,
     crit_rate = 15, crit_dmg = 50, core_dmg = 100, range_dmg = 30, full_burst_dmg = 50,
     core_hit = 0, range_bonus = 0, full_burst = 0, element_bonus = 0\<rparr>"

definition generate_cache :: "buff list option \<Rightarrow> ModifierCache" where
  "generate_cache buffs = add_buffs_opt baseline buffs"

section \<open>The damage formula\<close>

text \<open>
  Lines 436 to 442 of \<open>compute_damage\<close>: the situational modifier \<open>base_mod\<close>,
  from the cache \<open>calc\<close> and the arguments \<open>core_hit\<close>, \<open>range_bonus\<close> and
  \<open>full_burst\<close>.
\<close>

definition base_mod :: "ModifierCache \<Rightarrow> bool \<Rightarrow> bool \<Rightarrow> bool \<Rightarrow> real" where
  "base_mod calc core rng fb =
     (let m = 1;
          m = (if core \<or> core_hit calc > 0 then m + core_dmg calc / 100 else m);
          m = (if rng \<or> range_bonus calc > 0 then m + real_of_int (range_bonus calc) / 100 else m);
          m = (if fb \<or> full_burst calc > 0 then m + full_burst_dmg calc / 100 else m)
      in m)"

text \<open>
  \<open>NIKKE.compute_damage(damage, attack, defense, buffs, core_hit, range_bonus,
  full_burst, element_bonus, cache)\<close>. The result is the array
  \<open>[no-crit, crit, average]\<close>, as a triple. With a cache the function works on a deep
  copy, so the caller's cache is not changed.
\<close>

definition compute_damage ::
  "real \<Rightarrow> real \<Rightarrow> real \<Rightarrow> buff list option \<Rightarrow> bool \<Rightarrow> bool \<Rightarrow> bool \<Rightarrow> bool \<Rightarrow>
   ModifierCache option \<Rightarrow> real \<times> real \<times> real" where
  "compute_damage damage atk dfn buffs core rng fb elem cache =
     (let buffs = (case buffs of None \<Rightarrow> [] | Some bs \<Rightarrow> bs);
          calc = (case cache of Some c \<Rightarrow> add_buffs c buffs
                  | None \<Rightarrow> generate_cache (Some buffs));
          final_atk = atk * attack calc / 100;
          target_def = - dfn * defense calc / 100;
          calc = calc\<lparr>charge_dmg := charge_dmg calc / 100\<rparr>;
          calc = calc\<lparr>damage_taken := damage_taken calc / 100\<rparr>;
          calc = calc\<lparr>element_dmg :=
                   (if \<not> elem \<and> element_bonus calc \<le> 0 then 1 else element_dmg calc / 100)\<rparr>;
          calc = calc\<lparr>damage_up := damage_up calc / 100\<rparr>;
          base_dmg = (final_atk - target_def + flat_atk calc)
                     * charge_dmg calc
                     * damage_taken calc
                     * element_dmg calc
                     * damage_up calc
                     * damage / 100;
          bmod = base_mod calc core rng fb;
          crit_rate_p = min 1 (crit_rate calc / 100);
          crit_dmg_p = max 0 (crit_dmg calc / 100);
          crit_mod = bmod + crit_dmg_p;
          avg_mod = bmod * (1 - crit_rate_p) + crit_mod * crit_rate_p
      in (base_dmg * bmod, base_dmg * crit_mod, base_dmg * avg_mod))"

text \<open>\<open>NIKKE.get_bonus_tag\<close>; \<open>tag[:-1]\<close> drops the trailing underscore.\<close>

definition get_bonus_tag :: "bool \<Rightarrow> bool \<Rightarrow> bool \<Rightarrow> bool \<Rightarrow> string" where
  "get_bonus_tag core rng fb elem =
     (let tag = [];
          tag = (if core then tag @ ''core_'' else tag);
          tag = (if rng then tag @ ''range_'' else tag);
          tag = (if fb then tag @ ''fb_'' else tag);
          tag = (if elem then tag @ ''elem_'' else tag)
      in if tag \<noteq> [] then butlast tag else ''base'')"

text \<open>
  The dictionary that \<open>compute_damage_matrix\<close> returns, in insertion order: the key
  \<open>'matrix'\<close> holds the 16 by 3 array, every tag holds a dictionary with the keys
  \<open>index\<close>, \<open>base\<close>, \<open>crit\<close> and \<open>avg\<close>.
\<close>

datatype dictval =
    Rows "(real \<times> real \<times> real) list"
  | Entry (e_index: nat) (e_base: real) (e_crit: real) (e_avg: real)

type_synonym damage_matrix = "(string \<times> dictval) list"

text \<open>
  \<open>ret['matrix'][index] = total_dmg\<close>. No tag is the string \<open>'matrix'\<close>, so the key
  always holds the array (lemma \<open>get_bonus_tag_not_matrix\<close>) and \<open>index\<close> stays below 16.
\<close>

definition set_row :: "damage_matrix \<Rightarrow> nat \<Rightarrow> real \<times> real \<times> real \<Rightarrow> damage_matrix" where
  "set_row ret index total_dmg =
     (case map_of ret ''matrix'' of
        Some (Rows rows) \<Rightarrow> AList.update ''matrix'' (Rows (rows[index := total_dmg])) ret
      | _ \<Rightarrow> ret)"

text \<open>The body of the innermost loop of \<open>compute_damage_matrix\<close>.\<close>

definition matrix_step ::
  "real \<Rightarrow> real \<Rightarrow> real \<Rightarrow> ModifierCache \<Rightarrow> bool \<times> bool \<times> bool \<times> bool \<Rightarrow>
   damage_matrix \<times> nat \<Rightarrow> damage_matrix \<times> nat" where
  "matrix_step damage atk dfn cache flags state =
     (case flags of (core, rng, fb, elem) \<Rightarrow>
      case state of (ret, index) \<Rightarrow>
        let tag = get_bonus_tag core rng fb elem;
            total_dmg = compute_damage damage atk dfn None core rng fb elem (Some cache);
            ret = AList.update tag
                    (Entry index (fst total_dmg) (fst (snd total_dmg)) (snd (snd total_dmg))) ret;
            ret = set_row ret index total_dmg
        in (ret, index + 1))"

text \<open>
  The cache that \<open>compute_damage_matrix\<close> evaluates: a given cache after
  \<open>cache.add_buffs(buffs)\<close> (done in place, on the caller's object; nothing happens
  for \<open>buffs=None\<close>), else a fresh \<open>generate_cache(buffs)\<close>.
\<close>

definition matrix_cache :: "buff list option \<Rightarrow> ModifierCache option \<Rightarrow> ModifierCache" where
  "matrix_cache buffs cache =
     (case cache of Some c \<Rightarrow> add_buffs_opt c buffs | None \<Rightarrow> generate_cache buffs)"

text \<open>The four nested loops over \<open>flags = [False, True]\<close>, outermost first.\<close>

definition flag_combinations :: "(bool \<times> bool \<times> bool \<times> bool) list" where
  "flag_combinations =
     (let flags = [False, True]
      in [(core, rng, fb, elem). core \<leftarrow> flags, rng \<leftarrow> flags, fb \<leftarrow> flags, elem \<leftarrow> flags])"

text \<open>\<open>NIKKE.compute_damage_matrix(damage, attack, defense, buffs, cache)\<close>.\<close>

definition compute_damage_matrix ::
  "real \<Rightarrow> real \<Rightarrow> real \<Rightarrow> buff list option \<Rightarrow> ModifierCache option \<Rightarrow> damage_matrix" where
  "compute_damage_matrix damage atk dfn buffs cache =
     (let cache = matrix_cache buffs cache;
          ret = [(''matrix'', Rows (replicate 16 (0, 0, 0)))]
      in fst (fold (matrix_step damage atk dfn cache) flag_combinations (ret, 0)))"

text \<open>
  \<open>matrix[tag]['avg']\<close>: a missing key raises \<open>KeyError\<close>; the key \<open>'matrix'\<close> holds
  an array, which a string does not index (\<open>IndexError\<close>).
\<close>

definition lookup_avg :: "damage_matrix \<Rightarrow> string \<Rightarrow> error + real" where
  "lookup_avg matrix tag =
     (case map_of matrix tag of
        None \<Rightarrow> Inl KeyError
      | Some (Rows rows) \<Rightarrow> Inl IndexError
      | Some (Entry i b c a) \<Rightarrow> Inr a)"

text \<open>
  The loop of \<open>matrix_avg_dmg\<close> over \<open>tags.items()\<close>; the weight map is the list of
  its items in insertion order. The state is \<open>(total_dmg, total_ratio)\<close>.
\<close>

fun avg_loop ::
  "damage_matrix \<Rightarrow> (string \<times> real) list \<Rightarrow> real \<Rightarrow> real \<Rightarrow> error + real \<times> real" where
  "avg_loop matrix [] total_dmg total_ratio = Inr (total_dmg, total_ratio)"
| "avg_loop matrix ((tag, ratio) # rest) total_dmg total_ratio =
     (case lookup_avg matrix tag of
        Inl e \<Rightarrow> Inl e
      | Inr a \<Rightarrow> avg_loop matrix rest (total_dmg + a * ratio) (total_ratio + ratio))"

text \<open>\<open>NIKKE.matrix_avg_dmg(matrix, tags, normalize)\<close>.\<close>

definition matrix_avg_dmg ::
  "damage_matrix \<Rightarrow> (string \<times> real) list \<Rightarrow> bool \<Rightarrow> error + real" where
  "matrix_avg_dmg matrix tags normalize' =
     (case avg_loop matrix tags 0 0 of
        Inl e \<Rightarrow> Inl e
      | Inr (total_dmg, total_ratio) \<Rightarrow>
          Inr (if normalize' \<and> total_ratio \<noteq> 0 then total_dmg / total_ratio else total_dmg))"

text \<open>\<open>NIKKE.accumulate_avg_dmg(damage, attack, defense, buffs, tags, normalize, cache)\<close>.\<close>

definition accumulate_avg_dmg ::
  "real \<Rightarrow> real \<Rightarrow> real \<Rightarrow> buff list option \<Rightarrow> (string \<times> real) list \<Rightarrow> bool \<Rightarrow>
   ModifierCache option \<Rightarrow> error + real" where
  "accumulate_avg_dmg damage atk dfn buffs tags normalize' cache =
     (let matrix = compute_damage_matrix damage atk dfn buffs cache
      in matrix_avg_dmg matrix tags normalize')"

section \<open>The timeline sweeps\<close>

text \<open>
  A damage tag dictionary: \<open>damage\<close>, \<open>tags\<close> and \<open>start\<close> are read with
  \<open>dmg_tag[...]\<close>, \<open>duration\<close> and \<open>end\<close> with \<open>dmg_tag.get\<close>.
\<close>

record damage_tag =
  t_damage :: real
  t_tags :: "(string \<times> real) list"
  t_start :: xtime
  t_duration :: "xtime option"
  t_end :: "xtime option"

text \<open>What the sweeps return: \<open>np.sum(results)\<close> or the array \<open>results\<close>.\<close>

datatype dps = Total real | PerTag "real list"

text \<open>
  One step of \<open>get_unique_times\<close>: a buff boundary \<open>t\<close> is appended when it is
  finite, strictly inside the window and not yet in \<open>unique_times\<close>.
\<close>

definition add_time :: "xtime \<Rightarrow> xtime \<Rightarrow> xtime \<Rightarrow> real list \<Rightarrow> real list" where
  "add_time window_start window_end t unique_times =
     (if \<not> isinf t \<and> window_start < t \<and> t < window_end \<and> fin t \<notin> set unique_times
      then unique_times @ [fin t] else unique_times)"

text \<open>\<open>NIKKE.get_unique_times(buffs, window_start, window_end)\<close>.\<close>

definition get_unique_times :: "buff list \<Rightarrow> xtime \<Rightarrow> xtime \<Rightarrow> real list" where
  "get_unique_times buffs window_start window_end =
     (let unique_times = [];
          unique_times = (if \<not> isinf window_start then unique_times @ [fin window_start]
                          else unique_times);
          unique_times = (if \<not> isinf window_end then unique_times @ [fin window_end]
                          else unique_times)
      in foldl (\<lambda>unique_times buff.
                  add_time window_start window_end (b_end buff)
                    (add_time window_start window_end (b_start buff) unique_times))
           unique_times buffs)"

text \<open>
  The body of the loop over \<open>enumerate(damage_tags)\<close>, the same text in both sweeps:
  from \<open>results[i]\<close> to its new value, for the sub-interval \<open>(t_0, t_1)\<close> and the
  cache of that sub-interval.
\<close>

definition tag_step ::
  "real \<Rightarrow> real \<Rightarrow> bool \<Rightarrow> ModifierCache \<Rightarrow> real \<Rightarrow> real \<Rightarrow> real \<Rightarrow> damage_tag \<Rightarrow> error + real" where
  "tag_step atk dfn normalize' cache t_0 t_1 result dmg_tag =
     (let damage = t_damage dmg_tag;
          tags = t_tags dmg_tag;
          start = t_start dmg_tag;
          duration = (case t_duration dmg_tag of None \<Rightarrow> Fin 0 | Some d \<Rightarrow> d);
          end' = (case t_end dmg_tag of
                    Some e \<Rightarrow> e
                  | None \<Rightarrow> (if \<not> isinf duration then xadd start (fin duration) else PInf))
      in if start \<ge> Fin t_1 \<or> end' < Fin t_0 then Inr result
         else
           (case accumulate_avg_dmg damage atk dfn None tags normalize' (Some cache) of
              Inl e \<Rightarrow> Inl e
            | Inr total_dmg \<Rightarrow>
                let duration = (if duration \<noteq> Fin 0
                                then fin (min end' (Fin t_1)) - fin (max start (Fin t_0))
                                else 0)
                in if duration > 0 then Inr (result + total_dmg * duration)
                   else Inr (result + total_dmg)))"

text \<open>The loop over \<open>enumerate(damage_tags)\<close>; \<open>results\<close> has one entry per tag.\<close>

fun tags_loop ::
  "real \<Rightarrow> real \<Rightarrow> bool \<Rightarrow> ModifierCache \<Rightarrow> real \<Rightarrow> real \<Rightarrow> real list \<Rightarrow> damage_tag list \<Rightarrow>
   error + real list" where
  "tags_loop atk dfn normalize' cache t_0 t_1 (r # results) (dmg_tag # damage_tags) =
     (case tag_step atk dfn normalize' cache t_0 t_1 r dmg_tag of
        Inl e \<Rightarrow> Inl e
      | Inr r' \<Rightarrow>
          (case tags_loop atk dfn normalize' cache t_0 t_1 results damage_tags of
             Inl e \<Rightarrow> Inl e
           | Inr results' \<Rightarrow> Inr (r' # results')))"
| "tags_loop atk dfn normalize' cache t_0 t_1 results damage_tags = Inr results"

subsection \<open>The quadratic sweep\<close>

text \<open>
  The loop that builds \<open>buff_windows\<close> in \<open>compute_dps_window_n2\<close>:
  \<open>for t_1 in time_points: if t_0 >= t_1: continue; append [t_0, t_1]; t_0 = t_1\<close>.
\<close>

fun n2_windows :: "real \<Rightarrow> real list \<Rightarrow> (real \<times> real) list" where
  "n2_windows t_0 [] = []"
| "n2_windows t_0 (t_1 # time_points) =
     (if t_0 \<ge> t_1 then n2_windows t_0 time_points
      else (t_0, t_1) # n2_windows t_1 time_points)"

text \<open>The buffs that the quadratic sweep collects for the sub-interval starting at \<open>t_0\<close>.\<close>

definition window_buffs :: "buff list \<Rightarrow> real \<Rightarrow> buff list" where
  "window_buffs buffs t_0 = filter (\<lambda>buff. Fin t_0 \<ge> b_start buff \<and> Fin t_0 < b_end buff) buffs"

text \<open>The timeline loop of \<open>compute_dps_window_n2\<close>.\<close>

fun n2_sweep ::
  "damage_tag list \<Rightarrow> real \<Rightarrow> real \<Rightarrow> buff list \<Rightarrow> bool \<Rightarrow> real list \<Rightarrow> (real \<times> real) list \<Rightarrow>
   error + real list" where
  "n2_sweep damage_tags atk dfn buffs normalize' results [] = Inr results"
| "n2_sweep damage_tags atk dfn buffs normalize' results ((t_0, t_1) # buff_windows) =
     (let window = window_buffs buffs t_0;
          cache = generate_cache (Some window)
      in case tags_loop atk dfn normalize' cache t_0 t_1 results damage_tags of
           Inl e \<Rightarrow> Inl e
         | Inr results' \<Rightarrow> n2_sweep damage_tags atk dfn buffs normalize' results' buff_windows)"

text \<open>
  \<open>NIKKE.compute_dps_window_n2\<close>. \<open>time_points[0]\<close> raises \<open>IndexError\<close> when there
  is no time point.
\<close>

definition compute_dps_window_n2 ::
  "damage_tag list \<Rightarrow> real \<Rightarrow> real \<Rightarrow> buff list \<Rightarrow> xtime \<Rightarrow> xtime \<Rightarrow> bool \<Rightarrow> bool \<Rightarrow> error + dps" where
  "compute_dps_window_n2 damage_tags atk dfn buffs window_start window_end accumulate normalize' =
     (let time_points = get_unique_times buffs window_start window_end;
          time_points = sort time_points
      in case time_points of
           [] \<Rightarrow> Inl IndexError
         | t_0 # rest \<Rightarrow>
             let buff_windows = n2_windows t_0 time_points;
                 results = replicate (length damage_tags) 0
             in case n2_sweep damage_tags atk dfn buffs normalize' results buff_windows of
                  Inl e \<Rightarrow> Inl e
                | Inr results \<Rightarrow> Inr (if accumulate then Total (sum_list results) else PerTag results))"

subsection \<open>The linearithmic sweep\<close>

text \<open>
  The inner loops of the first pass, \<open>while prev_time >= add_buffs[add_index]['start']:
  add_index += 1\<close> and the same on \<open>sub_buffs\<close> and \<open>'end'\<close>: \<open>key\<close> is the field
  read. The loop condition reads \<open>buffs[index]\<close> without a bound check, which raises
  \<open>IndexError\<close> once \<open>index\<close> reaches the length of the list.
\<close>

function advance :: "(buff \<Rightarrow> xtime) \<Rightarrow> real \<Rightarrow> buff list \<Rightarrow> nat \<Rightarrow> error + nat" where
  "advance key prev_time buffs index =
     (if index < length buffs then
        (if Fin prev_time \<ge> key (buffs ! index) then advance key prev_time buffs (Suc index)
         else Inr index)
      else Inl IndexError)"
  by pat_completeness auto
termination
  by (relation "measure (\<lambda>(key, prev_time, buffs, index). length buffs - index)") auto

text \<open>
  A row of \<open>time_windows\<close> together with its row of \<open>buff_windows\<close>:
  \<open>((t_0, t_1), (add_s, add_e, sub_s, sub_e))\<close>.
\<close>

type_synonym sweep_window = "(real \<times> real) \<times> (nat \<times> nat \<times> nat \<times> nat)"

text \<open>
  The first pass of \<open>compute_dps_window_nlogn\<close>, \<open>for i in range(1, len(time_points))\<close>,
  over the time points after the first; the state is \<open>prev_time\<close>, \<open>add_index\<close> and
  \<open>sub_index\<close>.
\<close>

fun build_windows ::
  "buff list \<Rightarrow> buff list \<Rightarrow> real \<Rightarrow> nat \<Rightarrow> nat \<Rightarrow> real list \<Rightarrow> error + sweep_window list" where
  "build_windows add_buffs' sub_buffs prev_time add_index sub_index [] = Inr []"
| "build_windows add_buffs' sub_buffs prev_time add_index sub_index (curr_time # time_points) =
     (case (if add_index < length add_buffs' then advance b_start prev_time add_buffs' add_index
            else Inr add_index) of
        Inl e \<Rightarrow> Inl e
      | Inr add_index' \<Rightarrow>
          (case (if sub_index < length sub_buffs then advance b_end prev_time sub_buffs sub_index
                 else Inr sub_index) of
             Inl e \<Rightarrow> Inl e
           | Inr sub_index' \<Rightarrow>
               (case build_windows add_buffs' sub_buffs curr_time add_index' sub_index' time_points of
                  Inl e \<Rightarrow> Inl e
                | Inr windows \<Rightarrow>
                    Inr (((prev_time, curr_time), (add_index, add_index', sub_index, sub_index'))
                         # windows))))"

text \<open>
  The first two statements of the body of the second pass: the buffs of the add range
  enter the running cache, the buffs of the remove range leave it.
\<close>

definition sweep_cache ::
  "buff list \<Rightarrow> buff list \<Rightarrow> ModifierCache \<Rightarrow> sweep_window \<Rightarrow> error + ModifierCache" where
  "sweep_cache add_buffs' sub_buffs cache window =
     (case window of ((t_0, t_1), (add_s, add_e, sub_s, sub_e)) \<Rightarrow>
        case (if add_e > add_s then add_buffs_range cache add_buffs' add_s add_e else Inr cache) of
          Inl e \<Rightarrow> Inl e
        | Inr cache \<Rightarrow>
            (if sub_e > sub_s then remove_buffs_range cache sub_buffs sub_s sub_e else Inr cache))"

text \<open>The second pass of \<open>compute_dps_window_nlogn\<close>, over \<open>zip(time_windows, buff_windows)\<close>.\<close>

fun nlogn_sweep ::
  "damage_tag list \<Rightarrow> real \<Rightarrow> real \<Rightarrow> buff list \<Rightarrow> buff list \<Rightarrow> bool \<Rightarrow> ModifierCache \<Rightarrow>
   real list \<Rightarrow> sweep_window list \<Rightarrow> error + real list" where
  "nlogn_sweep damage_tags atk dfn add_buffs' sub_buffs normalize' cache results [] = Inr results"
| "nlogn_sweep damage_tags atk dfn add_buffs' sub_buffs normalize' cache results (window # windows) =
     (case sweep_cache add_buffs' sub_buffs cache window of
        Inl e \<Rightarrow> Inl e
      | Inr cache \<Rightarrow>
          (case tags_loop atk dfn normalize' cache (fst (fst window)) (snd (fst window))
                  results damage_tags of
             Inl e \<Rightarrow> Inl e
           | Inr results' \<Rightarrow>
               nlogn_sweep damage_tags atk dfn add_buffs' sub_buffs normalize' cache results' windows))"

text \<open>
  The running cache of the second pass after the given sub-intervals, one after the
  other, starting from \<open>cache\<close>: the cache that \<open>nlogn_sweep\<close> hands to the tag loop of
  the last of them.
\<close>

fun running_cache ::
  "buff list \<Rightarrow> buff list \<Rightarrow> ModifierCache \<Rightarrow> sweep_window list \<Rightarrow> error + ModifierCache" where
  "running_cache add_buffs' sub_buffs cache [] = Inr cache"
| "running_cache add_buffs' sub_buffs cache (window # windows) =
     (case sweep_cache add_buffs' sub_buffs cache window of
        Inl e \<Rightarrow> Inl e
      | Inr cache \<Rightarrow> running_cache add_buffs' sub_buffs cache windows)"

text \<open>
  \<open>NIKKE.compute_dps_window_nlogn\<close>. The local list \<open>add_buffs\<close> is written
  \<open>add_buffs'\<close>, apart from the method of that name. \<open>sorted\<close> is stable, as
  \<open>sort_key\<close> is; with no time point \<open>np.zeros((len(time_points) - 1, 2))\<close> raises
  \<open>ValueError\<close>.
\<close>

definition compute_dps_window_nlogn ::
  "damage_tag list \<Rightarrow> real \<Rightarrow> real \<Rightarrow> buff list \<Rightarrow> xtime \<Rightarrow> xtime \<Rightarrow> bool \<Rightarrow> bool \<Rightarrow> error + dps" where
  "compute_dps_window_nlogn damage_tags atk dfn buffs window_start window_end accumulate normalize' =
     (let add_buffs' = sort_key b_start buffs;
          sub_buffs = sort_key b_end buffs;
          time_points = get_unique_times add_buffs' window_start window_end;
          time_points = sort time_points
      in case time_points of
           [] \<Rightarrow> Inl ValueError
         | prev_time # rest \<Rightarrow>
             (case build_windows add_buffs' sub_buffs prev_time 0 0 rest of
                Inl e \<Rightarrow> Inl e
              | Inr windows \<Rightarrow>
                  let results = replicate (length damage_tags) 0;
                      cache = generate_cache (Some [])
                  in case nlogn_sweep damage_tags atk dfn add_buffs' sub_buffs normalize' cache
                            results windows of
                       Inl e \<Rightarrow> Inl e
                     | Inr results \<Rightarrow>
                         Inr (if accumulate then Total (sum_list results) else PerTag results)))"

text \<open>\<open>NIKKE.compute_dps_window\<close>, the dispatcher.\<close>

definition compute_dps_window ::
  "damage_tag list \<Rightarrow> real \<Rightarrow> real \<Rightarrow> buff list \<Rightarrow> xtime \<Rightarrow> xtime \<Rightarrow> bool \<Rightarrow> bool \<Rightarrow> error + dps" where
  "compute_dps_window damage_tags atk dfn buffs window_start window_end accumulate normalize' =
     (if length buffs \<ge> 800
      then compute_dps_window_nlogn damage_tags atk dfn buffs window_start window_end
             accumulate normalize'
      else compute_dps_window_n2 damage_tags atk dfn buffs window_start window_end
             accumulate normalize')"

declare advance.simps [simp del]
declare add_buffs_range.simps [simp del]
declare remove_buffs_range.simps [simp del]

section \<open>Notions used in the statements\<close>

text \<open>
  What one optional key of a buff contributes: \<open>g\<close> of its value when the key is
  present, nothing otherwise.
\<close>

definition gain :: "'a option \<Rightarrow> ('a \<Rightarrow> 'b::zero) \<Rightarrow> 'b" where
  "gain x g = (case x of None \<Rightarrow> 0 | Some v \<Rightarrow> g v)"

text \<open>The sixteen fields of a \<open>ModifierCache\<close>, read as real numbers.\<close>

datatype field =
    F_attack | F_charge_dmg | F_damage_taken | F_element_dmg | F_damage_up | F_defense
  | F_flat_atk | F_crit_rate | F_crit_dmg | F_core_dmg | F_range_dmg | F_full_burst_dmg
  | F_core_hit | F_range_bonus | F_full_burst | F_element_bonus

fun field_of :: "field \<Rightarrow> ModifierCache \<Rightarrow> real" where
  "field_of F_attack c = attack c"
| "field_of F_charge_dmg c = charge_dmg c"
| "field_of F_damage_taken c = damage_taken c"
| "field_of F_element_dmg c = element_dmg c"
| "field_of F_damage_up c = damage_up c"
| "field_of F_defense c = defense c"
| "field_of F_flat_atk c = flat_atk c"
| "field_of F_crit_rate c = crit_rate c"
| "field_of F_crit_dmg c = crit_dmg c"
| "field_of F_core_dmg c = core_dmg c"
| "field_of F_range_dmg c = range_dmg c"
| "field_of F_full_burst_dmg c = full_burst_dmg c"
| "field_of F_core_hit c = real_of_int (core_hit c)"
| "field_of F_range_bonus c = real_of_int (range_bonus c)"
| "field_of F_full_burst c = real_of_int (full_burst c)"
| "field_of F_element_bonus c = real_of_int (element_bonus c)"

text \<open>
  The effect of one buff on each field, as \<open>add_buff\<close> applies it: percentages and the
  flat attack are counted \<open>stacks\<close> times, \<open>core_dmg\<close>, \<open>range_dmg\<close> and
  \<open>full_burst_dmg\<close> of the buff go to the field \<open>crit_dmg\<close>, and the override counters
  are not scaled.
\<close>

fun effect :: "buff \<Rightarrow> field \<Rightarrow> real" where
  "effect b F_attack = gain (b_attack b) (\<lambda>v. v * stacks_of b)"
| "effect b F_charge_dmg = gain (b_charge_dmg b) (\<lambda>v. v * stacks_of b)
     + gain (b_full_charge_dmg b) (\<lambda>v. (v - 100) * stacks_of b)"
| "effect b F_damage_taken = gain (b_damage_taken b) (\<lambda>v. v * stacks_of b)"
| "effect b F_element_dmg = gain (b_element_dmg b) (\<lambda>v. v * stacks_of b)"
| "effect b F_damage_up = gain (b_damage_up b) (\<lambda>v. v * stacks_of b)"
| "effect b F_defense = gain (b_defense b) (\<lambda>v. v * stacks_of b)"
| "effect b F_flat_atk = gain (b_flat_atk b) (\<lambda>v. v * stacks_of b)"
| "effect b F_crit_rate = gain (b_crit_rate b) (\<lambda>v. v * stacks_of b)"
| "effect b F_crit_dmg = gain (b_crit_dmg b) (\<lambda>v. v * stacks_of b)
     + gain (b_core_dmg b) (\<lambda>v. v * stacks_of b)
     + gain (b_range_dmg b) (\<lambda>v. v * stacks_of b)
     + gain (b_full_burst_dmg b) (\<lambda>v. v * stacks_of b)"
| "effect b F_core_dmg = 0"
| "effect b F_range_dmg = 0"
| "effect b F_full_burst_dmg = 0"
| "effect b F_core_hit = real_of_int (gain (b_core_hit b) flag_inc)"
| "effect b F_range_bonus = real_of_int (gain (b_range_bonus b) flag_inc)"
| "effect b F_full_burst = real_of_int (gain (b_full_burst b) flag_inc)"
| "effect b F_element_bonus = real_of_int (gain (b_element_bonus b) flag_inc)"

text \<open>The summed effect of a list of buffs on a field.\<close>

definition effects :: "buff list \<Rightarrow> field \<Rightarrow> real" where
  "effects bs f = (\<Sum>b\<leftarrow>bs. effect b f)"

text \<open>
  A cursor \<open>j\<close> into a list of buffs cuts it at time \<open>t\<close>: the keys before \<open>j\<close> are
  at most \<open>t\<close>, the keys from \<open>j\<close> on are later.
\<close>

definition cut :: "(buff \<Rightarrow> xtime) \<Rightarrow> buff list \<Rightarrow> real \<Rightarrow> nat \<Rightarrow> bool" where
  "cut key bs t j =
     (j \<le> length bs \<and> (\<forall>m<j. key (bs ! m) \<le> Fin t)
      \<and> (\<forall>m. j \<le> m \<and> m < length bs \<longrightarrow> \<not> key (bs ! m) \<le> Fin t))"

text \<open>
  The running cache \<open>c\<close> accounts for the first \<open>a\<close> buffs of the add order as added
  and the first \<open>s\<close> buffs of the remove order as removed.
\<close>

definition tracks :: "buff list \<Rightarrow> buff list \<Rightarrow> ModifierCache \<Rightarrow> nat \<Rightarrow> nat \<Rightarrow> bool" where
  "tracks A S c a s =
     (\<forall>f. field_of f c = field_of f baseline + effects (take a A) f - effects (take s S) f)"

text \<open>The tag labels in the order in which \<open>compute_damage_matrix\<close> creates them.\<close>

definition matrix_labels :: "string list" where
  "matrix_labels =
     map (\<lambda>(core, rng, fb, elem). get_bonus_tag core rng fb elem) flag_combinations"

text \<open>The row number \<open>8*core + 4*range + 2*full_burst + element\<close>.\<close>

definition flag_index :: "bool \<Rightarrow> bool \<Rightarrow> bool \<Rightarrow> bool \<Rightarrow> nat" where
  "flag_index core rng fb elem =
     8 * of_bool core + 4 * of_bool rng + 2 * of_bool fb + of_bool elem"

text \<open>The dictionary stored under the tag of a flag combination.\<close>

definition dmg_entry ::
  "real \<Rightarrow> real \<Rightarrow> real \<Rightarrow> ModifierCache \<Rightarrow> bool \<Rightarrow> bool \<Rightarrow> bool \<Rightarrow> bool \<Rightarrow> dictval" where
  "dmg_entry damage atk dfn cache core rng fb elem =
     (let total_dmg = compute_damage damage atk dfn None core rng fb elem (Some cache)
      in Entry (flag_index core rng fb elem)
           (fst total_dmg) (fst (snd total_dmg)) (snd (snd total_dmg)))"

text \<open>The average-damage entry of a matrix under a tag label (0 where there is none).\<close>

definition matrix_avg :: "damage_matrix \<Rightarrow> string \<Rightarrow> real" where
  "matrix_avg matrix tag =
     (case map_of matrix tag of Some (Entry i b c a) \<Rightarrow> a | _ \<Rightarrow> 0)"

subsection \<open>Example inputs\<close>

text \<open>A buff dictionary with the keys \<open>start\<close> and \<open>end\<close> only.\<close>

definition plain_buff :: "xtime \<Rightarrow> xtime \<Rightarrow> buff" where
  "plain_buff s e = \<lparr>b_start = s, b_end = e, b_stacks = None, b_attack = None,
     b_charge_dmg = None, b_full_charge_dmg = None, b_damage_taken = None,
     b_element_dmg = None, b_damage_up = None, b_defense = None, b_flat_atk = None,
     b_crit_rate = None, b_crit_dmg = None, b_core_dmg = None, b_range_dmg = None,
     b_full_burst_dmg = None, b_core_hit = None, b_range_bonus = None,
     b_full_burst = None, b_element_bonus = None\<rparr>"

text \<open>\<open>{'start': s, 'end': e, 'attack': a}\<close>.\<close>

definition atk_buff :: "xtime \<Rightarrow> xtime \<Rightarrow> real \<Rightarrow> buff" where
  "atk_buff s e a = (plain_buff s e)\<lparr>b_attack := Some a\<rparr>"

text \<open>
  \<open>{'damage': 100, 'start': -math.inf, 'duration': math.inf, 'tags': {'base': 1.0}}\<close>,
  a damage source that is always on.
\<close>

definition sustained :: damage_tag where
  "sustained = \<lparr>t_damage = 100, t_tags = [(''base'', 1)], t_start = MInf,
     t_duration = Some PInf, t_end = None\<rparr>"


section \<open>The aggregate: adding and removing buffs\<close>

lemma xtime_less_simps [simp]:
  "MInf < Fin a" "MInf < PInf" "Fin a < PInf" "(Fin a < Fin b) = (a < b)"
  "\<not> x < MInf" "\<not> PInf < x"
  by (cases x; auto simp: less_xtime_def)+

lemma le_Fin_trans: "x \<le> Fin s \<Longrightarrow> s \<le> t \<Longrightarrow> x \<le> Fin t"
  by (cases x) auto

lemma overlap_operands_finite:
  "\<not> (start \<ge> Fin t_1 \<or> end' < Fin t_0) \<Longrightarrow>
   \<not> isinf (min end' (Fin t_1)) \<and> \<not> isinf (max start (Fin t_0))"
  by (cases start; cases end'; simp add: min_def max_def)

lemma block_Nil: "block [] s = s"
  by (simp add: block_def)

lemma block_Cons: "block (f # fs) s = block fs (f s)"
  by (simp add: block_def)

text \<open>A statement guarded by a key leaves a field alone when its body does.\<close>

lemma when_in_preserve: "(\<And>v s. F (stmt v s) = F s) \<Longrightarrow> F (when_in x stmt s') = F s'"
  by (cases x) (simp_all add: when_in_def)

lemmas when_in_keep =
  when_in_preserve[of attack] when_in_preserve[of charge_dmg] when_in_preserve[of damage_taken]
  when_in_preserve[of element_dmg] when_in_preserve[of damage_up] when_in_preserve[of defense]
  when_in_preserve[of flat_atk] when_in_preserve[of crit_rate] when_in_preserve[of crit_dmg]
  when_in_preserve[of core_dmg] when_in_preserve[of range_dmg] when_in_preserve[of full_burst_dmg]
  when_in_preserve[of core_hit] when_in_preserve[of range_bonus] when_in_preserve[of full_burst]
  when_in_preserve[of element_bonus]

lemma when_in_add:
  "attack (when_in x (\<lambda>v s. s\<lparr>attack := attack s + g v\<rparr>) c) = attack c + gain x g"
  "charge_dmg (when_in x (\<lambda>v s. s\<lparr>charge_dmg := charge_dmg s + g v\<rparr>) c) = charge_dmg c + gain x g"
  "damage_taken (when_in x (\<lambda>v s. s\<lparr>damage_taken := damage_taken s + g v\<rparr>) c) = damage_taken c + gain x g"
  "element_dmg (when_in x (\<lambda>v s. s\<lparr>element_dmg := element_dmg s + g v\<rparr>) c) = element_dmg c + gain x g"
  "damage_up (when_in x (\<lambda>v s. s\<lparr>damage_up := damage_up s + g v\<rparr>) c) = damage_up c + gain x g"
  "defense (when_in x (\<lambda>v s. s\<lparr>defense := defense s + g v\<rparr>) c) = defense c + gain x g"
  "flat_atk (when_in x (\<lambda>v s. s\<lparr>flat_atk := flat_atk s + g v\<rparr>) c) = flat_atk c + gain x g"
  "crit_rate (when_in x (\<lambda>v s. s\<lparr>crit_rate := crit_rate s + g v\<rparr>) c) = crit_rate c + gain x g"
  "crit_dmg (when_in x (\<lambda>v s. s\<lparr>crit_dmg := crit_dmg s + g v\<rparr>) c) = crit_dmg c + gain x g"
  "core_hit (when_in y (\<lambda>v s. s\<lparr>core_hit := core_hit s + h v\<rparr>) c) = core_hit c + gain y h"
  "range_bonus (when_in y (\<lambda>v s. s\<lparr>range_bonus := range_bonus s + h v\<rparr>) c) = range_bonus c + gain y h"
  "full_burst (when_in y (\<lambda>v s. s\<lparr>full_burst := full_burst s + h v\<rparr>) c) = full_burst c + gain y h"
  "element_bonus (when_in y (\<lambda>v s. s\<lparr>element_bonus := element_bonus s + h v\<rparr>) c) = element_bonus c + gain y h"
  by (cases x; cases y; simp add: when_in_def gain_def)+

lemma when_in_sub:
  "attack (when_in x (\<lambda>v s. s\<lparr>attack := attack s - g v\<rparr>) c) = attack c - gain x g"
  "charge_dmg (when_in x (\<lambda>v s. s\<lparr>charge_dmg := charge_dmg s - g v\<rparr>) c) = charge_dmg c - gain x g"
  "damage_taken (when_in x (\<lambda>v s. s\<lparr>damage_taken := damage_taken s - g v\<rparr>) c) = damage_taken c - gain x g"
  "element_dmg (when_in x (\<lambda>v s. s\<lparr>element_dmg := element_dmg s - g v\<rparr>) c) = element_dmg c - gain x g"
  "damage_up (when_in x (\<lambda>v s. s\<lparr>damage_up := damage_up s - g v\<rparr>) c) = damage_up c - gain x g"
  "defense (when_in x (\<lambda>v s. s\<lparr>defense := defense s - g v\<rparr>) c) = defense c - gain x g"
  "flat_atk (when_in x (\<lambda>v s. s\<lparr>flat_atk := flat_atk s - g v\<rparr>) c) = flat_atk c - gain x g"
  "crit_rate (when_in x (\<lambda>v s. s\<lparr>crit_rate := crit_rate s - g v\<rparr>) c) = crit_rate c - gain x g"
  "crit_dmg (when_in x (\<lambda>v s. s\<lparr>crit_dmg := crit_dmg s - g v\<rparr>) c) = crit_dmg c - gain x g"
  "core_hit (when_in y (\<lambda>v s. s\<lparr>core_hit := core_hit s - h v\<rparr>) c) = core_hit c - gain y h"
  "range_bonus (when_in y (\<lambda>v s. s\<lparr>range_bonus := range_bonus s - h v\<rparr>) c) = range_bonus c - gain y h"
  "full_burst (when_in y (\<lambda>v s. s\<lparr>full_burst := full_burst s - h v\<rparr>) c) = full_burst c - gain y h"
  "element_bonus (when_in y (\<lambda>v s. s\<lparr>element_bonus := element_bonus s - h v\<rparr>) c) = element_bonus c - gain y h"
  by (cases x; cases y; simp add: when_in_def gain_def)+

text \<open>Field by field, \<open>add_buff\<close> adds the effect of the buff and \<open>remove_buff\<close> takes it away.\<close>

lemma add_buff_field: "field_of f (add_buff c b) = field_of f c + effect b f"
  by (cases f; simp add: add_buff_def Let_def block_Nil block_Cons when_in_keep when_in_add)

lemma remove_buff_field: "field_of f (remove_buff c b) = field_of f c - effect b f"
  by (cases f; simp add: remove_buff_def Let_def block_Nil block_Cons when_in_keep when_in_sub)

lemma cache_eqI:
  assumes "\<And>f. field_of f c = field_of f c'"
  shows "c = c'"
proof (rule ModifierCache.equality)
  show "attack c = attack c'" using assms[of F_attack] by simp
  show "charge_dmg c = charge_dmg c'" using assms[of F_charge_dmg] by simp
  show "damage_taken c = damage_taken c'" using assms[of F_damage_taken] by simp
  show "element_dmg c = element_dmg c'" using assms[of F_element_dmg] by simp
  show "damage_up c = damage_up c'" using assms[of F_damage_up] by simp
  show "defense c = defense c'" using assms[of F_defense] by simp
  show "flat_atk c = flat_atk c'" using assms[of F_flat_atk] by simp
  show "crit_rate c = crit_rate c'" using assms[of F_crit_rate] by simp
  show "crit_dmg c = crit_dmg c'" using assms[of F_crit_dmg] by simp
  show "core_dmg c = core_dmg c'" using assms[of F_core_dmg] by simp
  show "range_dmg c = range_dmg c'" using assms[of F_range_dmg] by simp
  show "full_burst_dmg c = full_burst_dmg c'" using assms[of F_full_burst_dmg] by simp
  show "core_hit c = core_hit c'" using assms[of F_core_hit] by simp
  show "range_bonus c = range_bonus c'" using assms[of F_range_bonus] by simp
  show "full_burst c = full_burst c'" using assms[of F_full_burst] by simp
  show "element_bonus c = element_bonus c'" using assms[of F_element_bonus] by simp
  show "ModifierCache.more c = ModifierCache.more c'" by simp
qed


lemma effects_simps [simp]:
  "effects [] f = 0"
  "effects (b # bs) f = effect b f + effects bs f"
  "effects (xs @ ys) f = effects xs f + effects ys f"
  by (simp_all add: effects_def)

lemma foldl_add_buff_field: "field_of f (foldl add_buff c bs) = field_of f c + effects bs f"
  by (induction bs arbitrary: c) (simp_all add: add_buff_field)

lemma generate_cache_field:
  "field_of f (generate_cache (Some bs)) = field_of f baseline + effects bs f"
  by (simp add: generate_cache_def add_buffs_opt_def add_buffs_def foldl_add_buff_field)

lemma add_buffs_range_field:
  "i \<le> e \<Longrightarrow> e \<le> length bs \<Longrightarrow>
   \<exists>c'. add_buffs_range c bs i e = Inr c' \<and>
     (\<forall>f. field_of f c' = field_of f c + effects (take (e - i) (drop i bs)) f)"
proof (induction c bs i e rule: add_buffs_range.induct)
  case (1 self buffs i e)
  show ?case
  proof (cases "i < e")
    case False
    with 1 show ?thesis by (simp add: add_buffs_range.simps)
  next
    case True
    with 1 have lt: "i < length buffs" by simp
    from 1 True lt obtain c' where
      c': "add_buffs_range (add_buff self (buffs ! i)) buffs (Suc i) e = Inr c'"
        "\<forall>f. field_of f c' = field_of f (add_buff self (buffs ! i))
               + effects (take (e - Suc i) (drop (Suc i) buffs)) f"
      by fastforce
    have d: "drop i buffs = buffs ! i # drop (Suc i) buffs"
      using lt by (simp add: Cons_nth_drop_Suc)
    have e: "e - i = Suc (e - Suc i)" using True by simp
    show ?thesis
      using c' True lt by (subst add_buffs_range.simps) (simp add: d e add_buff_field)
  qed
qed

lemma remove_buffs_range_field:
  "i \<le> e \<Longrightarrow> e \<le> length bs \<Longrightarrow>
   \<exists>c'. remove_buffs_range c bs i e = Inr c' \<and>
     (\<forall>f. field_of f c' = field_of f c - effects (take (e - i) (drop i bs)) f)"
proof (induction c bs i e rule: remove_buffs_range.induct)
  case (1 self buffs i e)
  show ?case
  proof (cases "i < e")
    case False
    with 1 show ?thesis by (simp add: remove_buffs_range.simps)
  next
    case True
    with 1 have lt: "i < length buffs" by simp
    from 1 True lt obtain c' where
      c': "remove_buffs_range (remove_buff self (buffs ! i)) buffs (Suc i) e = Inr c'"
        "\<forall>f. field_of f c' = field_of f (remove_buff self (buffs ! i))
               - effects (take (e - Suc i) (drop (Suc i) buffs)) f"
      by fastforce
    have d: "drop i buffs = buffs ! i # drop (Suc i) buffs"
      using lt by (simp add: Cons_nth_drop_Suc)
    have e: "e - i = Suc (e - Suc i)" using True by simp
    show ?thesis
      using c' True lt by (subst remove_buffs_range.simps) (simp add: d e remove_buff_field)
  qed
qed

lemma effects_take_split:
  assumes "i \<le> e"
  shows "effects (take e bs) f = effects (take i bs) f + effects (take (e - i) (drop i bs)) f"
proof -
  have "take e bs = take i bs @ take (e - i) (drop i bs)"
    using assms by (metis le_add_diff_inverse take_add)
  then show ?thesis by simp
qed

lemma effects_mset: "effects bs f = sum_mset (image_mset (\<lambda>b. effect b f) (mset bs))"
  by (simp add: effects_def flip: sum_mset_sum_list)

lemma effects_filter_sort: "effects (filter P (sort_key key bs)) f = effects (filter P bs) f"
  by (simp add: effects_mset)

lemma effects_filter_diff:
  "\<forall>b\<in>set bs. Q b \<longrightarrow> P b \<Longrightarrow>
   effects (filter P bs) f - effects (filter Q bs) f
     = effects (filter (\<lambda>b. P b \<and> \<not> Q b) bs) f"
  by (induction bs) auto

text \<open>
  With \<open>start < end\<close> for every buff, the buffs started by \<open>t\<close> less the buffs ended by
  \<open>t\<close> are the buffs that the quadratic sweep selects at \<open>t\<close>.
\<close>

lemma active_effects:
  assumes "\<forall>b\<in>set buffs. b_start b < b_end b"
  shows "effects (filter (\<lambda>b. b_start b \<le> Fin t) buffs) f
           - effects (filter (\<lambda>b. b_end b \<le> Fin t) buffs) f
         = effects (window_buffs buffs t) f"
proof -
  have "\<forall>b\<in>set buffs. b_end b \<le> Fin t \<longrightarrow> b_start b \<le> Fin t"
    using assms by auto
  from effects_filter_diff[OF this]
  show ?thesis by (simp add: window_buffs_def not_le)
qed

section \<open>The damage formula and the outcome matrix\<close>

lemma compute_damage_baseline:
  "compute_damage 100 100000 10000 None core rng fb elem (Some (baseline\<lparr>attack := a\<rparr>)) =
     (let bmod = 1 + (if core then 1 else 0) + (if fb then 1 / 2 else 0);
          base_dmg = (1000 * a + 10000) * (if elem then 11 / 10 else 1)
      in (base_dmg * bmod, base_dmg * (bmod + 1 / 2),
          base_dmg * (bmod * (17 / 20) + (bmod + 1 / 2) * (3 / 20))))"
  by (simp add: compute_damage_def add_buffs_def baseline_def base_mod_def Let_def)

lemma baseline_attack: "baseline\<lparr>attack := 100\<rparr> = baseline"
  by (simp add: baseline_def)

text \<open>
  Claim C2. \<open>compute_damage\<close> with attack 100000, defense 10000, no buffs, skill
  multiplier 100 and no situational flag is claimed to return base damage 90000 and
  average damage 96750. The code negates the defense term and then subtracts it, so the
  defense is added to the attack: the result is 110000, 165000 and 118250.
\<close>

theorem compute_damage_scenario:
  "compute_damage 100 100000 10000 None False False False False None
     = (110000, 165000, 118250)"
  by (simp add: compute_damage_def generate_cache_def add_buffs_opt_def add_buffs_def
      baseline_def base_mod_def Let_def)

text \<open>
  Claim C3. The situational modifier is claimed to add \<open>range_dmg/100\<close> for an active
  range bonus. The code adds the override counter \<open>range_bonus\<close> divided by 100
  instead: with the default cache (\<open>range_dmg = 30\<close>, counter 0) and
  \<open>range_bonus=True\<close> the modifier is 1, not 1.3, and the damage is that of the call
  without the range bonus.
\<close>

theorem base_mod_range_bonus:
  "base_mod (generate_cache None) False True False = 1
   \<and> 1 + range_dmg (generate_cache None) / 100 = 13 / 10
   \<and> compute_damage 100 100000 10000 None False True False False None
       = compute_damage 100 100000 10000 None False False False False None"
  by (simp add: compute_damage_def generate_cache_def add_buffs_opt_def add_buffs_def
      baseline_def base_mod_def Let_def)

lemma flag_combinations_eq:
  "flag_combinations =
    [(False, False, False, False), (False, False, False, True),
     (False, False, True, False), (False, False, True, True),
     (False, True, False, False), (False, True, False, True),
     (False, True, True, False), (False, True, True, True),
     (True, False, False, False), (True, False, False, True),
     (True, False, True, False), (True, False, True, True),
     (True, True, False, False), (True, True, False, True),
     (True, True, True, False), (True, True, True, True)]"
  by (simp add: flag_combinations_def)

lemma get_bonus_tag_cases:
  "get_bonus_tag core rng fb elem =
     (if core then
        (if rng then (if fb then (if elem then ''core_range_fb_elem'' else ''core_range_fb'')
                      else (if elem then ''core_range_elem'' else ''core_range''))
         else (if fb then (if elem then ''core_fb_elem'' else ''core_fb'')
               else (if elem then ''core_elem'' else ''core'')))
      else
        (if rng then (if fb then (if elem then ''range_fb_elem'' else ''range_fb'')
                      else (if elem then ''range_elem'' else ''range''))
         else (if fb then (if elem then ''fb_elem'' else ''fb'')
               else (if elem then ''elem'' else ''base''))))"
  by (simp add: get_bonus_tag_def)

lemma get_bonus_tag_not_matrix: "get_bonus_tag core rng fb elem \<noteq> ''matrix''"
  by (simp add: get_bonus_tag_cases)

lemma get_bonus_tag_base:
  "(get_bonus_tag core rng fb elem = ''base'') = (\<not> core \<and> \<not> rng \<and> \<not> fb \<and> \<not> elem)"
  by (simp add: get_bonus_tag_cases)

lemma matrix_labels_eq:
  "matrix_labels =
     [''base'', ''elem'', ''fb'', ''fb_elem'', ''range'', ''range_elem'', ''range_fb'',
      ''range_fb_elem'', ''core'', ''core_elem'', ''core_fb'', ''core_fb_elem'',
      ''core_range'', ''core_range_elem'', ''core_range_fb'', ''core_range_fb_elem'']"
  by (simp add: matrix_labels_def flag_combinations_eq get_bonus_tag_def)

lemma matrix_step_eq:
  "matrix_step damage atk dfn cache (core, rng, fb, elem) (ret, index) =
     (set_row
        (AList.update (get_bonus_tag core rng fb elem)
           (let t = compute_damage damage atk dfn None core rng fb elem (Some cache)
            in Entry index (fst t) (fst (snd t)) (snd (snd t))) ret)
        index (compute_damage damage atk dfn None core rng fb elem (Some cache)),
      Suc index)"
  by (simp add: matrix_step_def Let_def)

text \<open>The returned dictionary, written out: the array first, then one entry per tag.\<close>

lemma compute_damage_matrix_explicit:
  "compute_damage_matrix damage atk dfn buffs cache =
     (''matrix'', Rows (map (\<lambda>(core, rng, fb, elem).
         compute_damage damage atk dfn None core rng fb elem (Some (matrix_cache buffs cache)))
         flag_combinations))
     # map (\<lambda>(core, rng, fb, elem). (get_bonus_tag core rng fb elem,
         dmg_entry damage atk dfn (matrix_cache buffs cache) core rng fb elem)) flag_combinations"
  unfolding compute_damage_matrix_def Let_def flag_combinations_eq
  apply (simp add: matrix_step_eq)
  apply (simp add: get_bonus_tag_def set_row_def dmg_entry_def flag_index_def Let_def
      eval_nat_numeral)
  done

lemma matrix_keys:
  "map fst (compute_damage_matrix damage atk dfn buffs cache) = ''matrix'' # matrix_labels"
  by (simp add: compute_damage_matrix_explicit matrix_labels_def case_prod_unfold)

lemma matrix_lookup:
  "map_of (compute_damage_matrix damage atk dfn buffs cache) (get_bonus_tag core rng fb elem)
     = Some (dmg_entry damage atk dfn (matrix_cache buffs cache) core rng fb elem)"
  unfolding compute_damage_matrix_explicit flag_combinations_eq
  by (cases core; cases rng; cases fb; cases elem; simp add: get_bonus_tag_def)

lemma matrix_rows:
  "map_of (compute_damage_matrix damage atk dfn buffs cache) ''matrix''
     = Some (Rows (map (\<lambda>(core, rng, fb, elem).
         compute_damage damage atk dfn None core rng fb elem (Some (matrix_cache buffs cache)))
         flag_combinations))"
  by (simp add: compute_damage_matrix_explicit)

text \<open>
  Claim C10. \<open>compute_damage_matrix\<close> evaluates the 16 combinations of (core hit, range
  bonus, full burst, element bonus) in the nesting order core, range, full burst, element:
  the keys of the result are \<open>'matrix'\<close> and 16 tag labels, all distinct; the entry of
  a combination carries the index \<open>8*core + 4*range + 2*full_burst + element\<close>, which is
  also the position of its label among the labels; and the label is \<open>'base'\<close> exactly
  when all four flags are false.
\<close>

theorem compute_damage_matrix_labels:
  "map fst (compute_damage_matrix damage atk dfn buffs cache) = ''matrix'' # matrix_labels
   \<and> length matrix_labels = 16
   \<and> distinct (''matrix'' # matrix_labels)
   \<and> map_of (compute_damage_matrix damage atk dfn buffs cache) (get_bonus_tag core rng fb elem)
       = Some (dmg_entry damage atk dfn (matrix_cache buffs cache) core rng fb elem)
   \<and> e_index (dmg_entry damage atk dfn (matrix_cache buffs cache) core rng fb elem)
       = 8 * of_bool core + 4 * of_bool rng + 2 * of_bool fb + of_bool elem
   \<and> matrix_labels ! (8 * of_bool core + 4 * of_bool rng + 2 * of_bool fb + of_bool elem)
       = get_bonus_tag core rng fb elem
   \<and> (get_bonus_tag core rng fb elem = ''base'') = (\<not> core \<and> \<not> rng \<and> \<not> fb \<and> \<not> elem)"
proof -
  have "matrix_labels ! (8 * of_bool core + 4 * of_bool rng + 2 * of_bool fb + of_bool elem)
       = get_bonus_tag core rng fb elem"
    unfolding matrix_labels_eq
    by (cases core; cases rng; cases fb; cases elem; simp add: get_bonus_tag_def)
  moreover have "length matrix_labels = 16 \<and> distinct (''matrix'' # matrix_labels)"
    unfolding matrix_labels_eq by simp
  moreover have "e_index (dmg_entry damage atk dfn (matrix_cache buffs cache) core rng fb elem)
       = 8 * of_bool core + 4 * of_bool rng + 2 * of_bool fb + of_bool elem"
    by (simp add: dmg_entry_def Let_def flag_index_def)
  ultimately show ?thesis
    using matrix_keys matrix_lookup get_bonus_tag_base by simp
qed

section \<open>Blending the matrix with a weight map\<close>

lemma avg_loop_sums:
  "\<forall>(tag, ratio) \<in> set tags. lookup_avg matrix tag = Inr (a tag) \<Longrightarrow>
   avg_loop matrix tags total_dmg total_ratio =
     Inr (total_dmg + (\<Sum>(tag, ratio) \<leftarrow> tags. a tag * ratio),
          total_ratio + (\<Sum>(tag, ratio) \<leftarrow> tags. ratio))"
  by (induction tags arbitrary: total_dmg total_ratio) (auto simp: algebra_simps)

lemma avg_loop_error:
  "(tag, ratio) \<in> set tags \<Longrightarrow> isl (lookup_avg matrix tag) \<Longrightarrow>
   isl (avg_loop matrix tags total_dmg total_ratio)"
  by (induction tags arbitrary: total_dmg total_ratio) (auto split: sum.splits)

lemma lookup_avg_matrix:
  "lookup_avg (compute_damage_matrix damage atk dfn buffs cache) (get_bonus_tag core rng fb elem)
    = Inr (snd (snd (compute_damage damage atk dfn None core rng fb elem
                       (Some (matrix_cache buffs cache)))))"
  by (simp add: lookup_avg_def matrix_lookup dmg_entry_def Let_def)

lemma matrix_avg_tag:
  "matrix_avg (compute_damage_matrix damage atk dfn buffs cache) (get_bonus_tag core rng fb elem)
    = snd (snd (compute_damage damage atk dfn None core rng fb elem
                  (Some (matrix_cache buffs cache))))"
  by (simp add: matrix_avg_def matrix_lookup dmg_entry_def Let_def)

lemma lookup_avg_label:
  assumes "tag \<in> set matrix_labels"
  shows "lookup_avg (compute_damage_matrix damage atk dfn buffs cache) tag
           = Inr (matrix_avg (compute_damage_matrix damage atk dfn buffs cache) tag)"
proof -
  from assms obtain core rng fb elem where "tag = get_bonus_tag core rng fb elem"
    by (auto simp: matrix_labels_def)
  then show ?thesis by (simp add: lookup_avg_matrix matrix_avg_tag)
qed

lemma lookup_avg_unknown:
  assumes "tag \<notin> set matrix_labels"
  shows "isl (lookup_avg (compute_damage_matrix damage atk dfn buffs cache) tag)"
proof (cases "map_of (compute_damage_matrix damage atk dfn buffs cache) tag")
  case None
  then show ?thesis by (simp add: lookup_avg_def)
next
  case (Some v)
  then have "tag \<in> set (map fst (compute_damage_matrix damage atk dfn buffs cache))"
    by (metis map_of_eq_None_iff option.distinct(1) set_map)
  with assms have "tag = ''matrix''" by (simp add: matrix_keys)
  then show ?thesis by (simp add: lookup_avg_def matrix_rows)
qed

lemma base_tag: "''base'' = get_bonus_tag False False False False"
  by (simp add: get_bonus_tag_def)

lemma core_tag: "''core'' = get_bonus_tag True False False False"
  by (simp add: get_bonus_tag_def)

lemma default_matrix_cache: "matrix_cache None None = baseline\<lparr>attack := 100\<rparr>"
  by (simp add: matrix_cache_def generate_cache_def add_buffs_opt_def baseline_attack)

lemma default_matrix_base:
  "lookup_avg (compute_damage_matrix 100 100000 10000 None None) ''base'' = Inr 118250"
  unfolding base_tag lookup_avg_matrix default_matrix_cache compute_damage_baseline
  by (simp add: Let_def)

lemma default_matrix_core:
  "lookup_avg (compute_damage_matrix 100 100000 10000 None None) ''core'' = Inr 228250"
  unfolding core_tag lookup_avg_matrix default_matrix_cache compute_damage_baseline
  by (simp add: Let_def)

text \<open>
  Claim C8, as stated, fails where the weights sum to zero without all being zero: with
  the weights 1 for \<open>'base'\<close> and -1 for \<open>'core'\<close> on the matrix of the default
  scenario the division is skipped and the result is the plain weighted sum
  118250 - 228250, not 0.
\<close>

theorem matrix_avg_dmg_zero_sum_counterexample:
  "sum_list (map snd [(''base'', 1::real), (''core'', - 1)]) = 0
   \<and> matrix_avg_dmg (compute_damage_matrix 100 100000 10000 None None)
       [(''base'', 1), (''core'', - 1)] True = Inr (- 110000)
   \<and> matrix_avg_dmg (compute_damage_matrix 100 100000 10000 None None)
       [(''base'', 1), (''core'', - 1)] True \<noteq> Inr 0"
  by (simp add: matrix_avg_dmg_def default_matrix_base default_matrix_core)

text \<open>
  Claim C8, amended. For every weight map over the 16 tag labels, \<open>matrix_avg_dmg\<close>
  returns the weighted sum of the matrix's average-damage entries keyed by tag label,
  divided by the sum of the weights when \<open>normalize\<close> is true and that sum is not zero;
  when the weights sum to zero nothing is divided and the result is the weighted sum
  itself.
\<close>

theorem matrix_avg_dmg_weighted_sum:
  assumes "set (map fst tags) \<subseteq> set matrix_labels"
  shows "matrix_avg_dmg (compute_damage_matrix damage atk dfn buffs cache) tags normalize' =
     Inr (if normalize' \<and> (\<Sum>(tag, ratio) \<leftarrow> tags. ratio) \<noteq> 0
          then (\<Sum>(tag, ratio) \<leftarrow> tags.
                  matrix_avg (compute_damage_matrix damage atk dfn buffs cache) tag * ratio)
               / (\<Sum>(tag, ratio) \<leftarrow> tags. ratio)
          else (\<Sum>(tag, ratio) \<leftarrow> tags.
                  matrix_avg (compute_damage_matrix damage atk dfn buffs cache) tag * ratio))"
proof -
  have "\<forall>(tag, ratio) \<in> set tags.
          lookup_avg (compute_damage_matrix damage atk dfn buffs cache) tag
            = Inr (matrix_avg (compute_damage_matrix damage atk dfn buffs cache) tag)"
    using assms by (auto intro!: lookup_avg_label)
  from avg_loop_sums[OF this, of 0 0] show ?thesis
    by (simp add: matrix_avg_dmg_def)
qed

text \<open>
  The weights 1 for \<open>'base'\<close> and 3 for \<open>'core'\<close> on the matrix of the default
  scenario: (118250 + 3 * 228250) / 4.
\<close>

theorem matrix_avg_dmg_weighted_sum_witness:
  "set (map fst [(''base'', 1::real), (''core'', 3)]) \<subseteq> set matrix_labels
   \<and> matrix_avg_dmg (compute_damage_matrix 100 100000 10000 None None)
       [(''base'', 1), (''core'', 3)] True = Inr 200750"
proof -
  have s: "set (map fst [(''base'', 1::real), (''core'', 3)]) \<subseteq> set matrix_labels"
    by (simp add: matrix_labels_eq)
  have b: "matrix_avg (compute_damage_matrix 100 100000 10000 None None) ''base'' = 118250"
    unfolding base_tag matrix_avg_tag default_matrix_cache compute_damage_baseline
    by (simp add: Let_def)
  have c: "matrix_avg (compute_damage_matrix 100 100000 10000 None None) ''core'' = 228250"
    unfolding core_tag matrix_avg_tag default_matrix_cache compute_damage_baseline
    by (simp add: Let_def)
  show ?thesis
    using s matrix_avg_dmg_weighted_sum[OF s, of 100 100000 10000 None None True]
    by (simp add: b c)
qed

text \<open>
  Claim C9. For every weight map that contains a label which is not one of the 16 tag
  labels of the matrix, \<open>matrix_avg_dmg\<close>, and with it \<open>accumulate_avg_dmg\<close>, raises
  an error instead of returning a value.
\<close>

theorem matrix_avg_dmg_unknown_label:
  assumes "(tag, ratio) \<in> set tags" and "tag \<notin> set matrix_labels"
  shows "isl (matrix_avg_dmg (compute_damage_matrix damage atk dfn buffs cache) tags normalize')
       \<and> isl (accumulate_avg_dmg damage atk dfn buffs tags normalize' cache)"
  using avg_loop_error[OF assms(1) lookup_avg_unknown[OF assms(2)],
      of damage atk dfn buffs cache 0 0]
  by (auto simp: matrix_avg_dmg_def accumulate_avg_dmg_def Let_def split: sum.splits)

text \<open>The weight map \<open>{'base': 1, 'weakpoint': 1}\<close>.\<close>

theorem matrix_avg_dmg_unknown_label_witness:
  "(''weakpoint'', 1) \<in> set [(''base'', 1::real), (''weakpoint'', 1)]
   \<and> ''weakpoint'' \<notin> set matrix_labels
   \<and> isl (matrix_avg_dmg (compute_damage_matrix 100 100000 10000 None None)
            [(''base'', 1), (''weakpoint'', 1)] True)
   \<and> isl (accumulate_avg_dmg 100 100000 10000 None [(''base'', 1), (''weakpoint'', 1)] True None)"
proof -
  have m: "(''weakpoint'', 1) \<in> set [(''base'', 1::real), (''weakpoint'', 1)]"
    by simp
  have n: "''weakpoint'' \<notin> set matrix_labels"
    by (simp add: matrix_labels_eq)
  from matrix_avg_dmg_unknown_label[OF m n, of 100 100000 10000 None None True] m n
  show ?thesis by simp
qed

section \<open>The sweeps\<close>

lemma sum_list_zeros: "sum_list (replicate n (0::real)) = 0"
  by (induction n) simp_all

lemma atk_buff_sel [simp]: "b_start (atk_buff s e a) = s" "b_end (atk_buff s e a) = e"
  by (simp_all add: atk_buff_def plain_buff_def)

lemma plain_buff_sel [simp]: "b_start (plain_buff s e) = s" "b_end (plain_buff s e) = e"
  by (simp_all add: plain_buff_def)

lemma add_buff_atk_buff: "add_buff c (atk_buff s e a) = c\<lparr>attack := attack c + a\<rparr>"
  by (simp add: add_buff_def atk_buff_def plain_buff_def stacks_of_def block_Nil block_Cons
      when_in_def)

lemma accumulate_single:
  "accumulate_avg_dmg damage atk dfn None [(get_bonus_tag core rng fb elem, 1)] normalize'
     (Some cache)
    = Inr (snd (snd (compute_damage damage atk dfn None core rng fb elem (Some cache))))"
  by (simp add: accumulate_avg_dmg_def matrix_avg_dmg_def lookup_avg_matrix matrix_cache_def
      add_buffs_opt_def)

lemma avg_base:
  "accumulate_avg_dmg 100 100000 10000 None [(''base'', 1)] True
     (Some (baseline\<lparr>attack := a\<rparr>)) = Inr (1075 * a + 10750)"
  unfolding base_tag accumulate_single compute_damage_baseline
  by (simp add: Let_def)

subsection \<open>A window of width zero\<close>

lemma add_time_degenerate: "add_time (Fin w) (Fin w) t unique_times = unique_times"
  by (cases t) (auto simp: add_time_def)

lemma get_unique_times_degenerate: "get_unique_times buffs (Fin w) (Fin w) = [w, w]"
proof -
  have "foldl (\<lambda>unique_times buff.
                 add_time (Fin w) (Fin w) (b_end buff)
                   (add_time (Fin w) (Fin w) (b_start buff) unique_times)) ts buffs = ts" for ts
    by (induction buffs) (simp_all add: add_time_degenerate)
  then show ?thesis by (simp add: get_unique_times_def)
qed

lemma n2_degenerate:
  "compute_dps_window_n2 damage_tags atk dfn buffs (Fin w) (Fin w) False normalize' =
     Inr (PerTag (replicate (length damage_tags) 0))"
  by (simp add: compute_dps_window_n2_def get_unique_times_degenerate)

text \<open>
  Claim C7, as stated, fails for the instantaneous tag: in the window from 5 to 5 the
  quadratic sweep returns 0 for an instantaneous damage tag that starts at 5, although
  the average damage of that tag on the cache without buffs is 118250.
\<close>

theorem zero_width_instantaneous_counterexample:
  "compute_dps_window_n2
     [\<lparr>t_damage = 100, t_tags = [(''base'', 1)], t_start = Fin 5,
       t_duration = Some (Fin 0), t_end = None\<rparr>]
     100000 10000 [] (Fin 5) (Fin 5) False True = Inr (PerTag [0])
   \<and> accumulate_avg_dmg 100 100000 10000 None [(''base'', 1)] True
       (Some (generate_cache (Some []))) = Inr 118250"
proof -
  have "generate_cache (Some []) = baseline\<lparr>attack := 100\<rparr>"
    by (simp add: generate_cache_def add_buffs_opt_def add_buffs_def baseline_attack)
  then show ?thesis
    by (simp add: n2_degenerate avg_base)
qed

text \<open>
  Claim C7, amended. When \<open>window_start\<close> equals \<open>window_end\<close> (a finite time), the
  quadratic sweep forms no sub-interval and returns 0 for every damage tag, sustained or
  instantaneous: the total is 0 and so is every entry of the per-tag vector, also for an
  instantaneous tag that starts exactly at that point.
\<close>

theorem n2_zero_width_window:
  "compute_dps_window_n2 damage_tags atk dfn buffs (Fin w) (Fin w) accumulate normalize' =
     Inr (if accumulate then Total 0 else PerTag (replicate (length damage_tags) 0))"
  by (simp add: compute_dps_window_n2_def get_unique_times_degenerate sum_list_zeros)

subsection \<open>The cursors of the linearithmic sweep\<close>

text \<open>
  Claim C5. Both sweeps are claimed to run to completion on every well-formed input, the
  cursor loops never reading past the end of the sorted lists, also for a buff from
  \<open>-math.inf\<close> to \<open>math.inf\<close> over a finite window. On that buff and the window from
  0 to 10 the add cursor runs off the end of the list and \<open>compute_dps_window_nlogn\<close>
  raises \<open>IndexError\<close>, whatever the damage tags are.
\<close>

theorem nlogn_infinite_buff_index_error:
  "compute_dps_window_nlogn damage_tags atk dfn [plain_buff MInf PInf] (Fin 0) (Fin 10)
     accumulate normalize' = Inl IndexError"
  by (simp add: compute_dps_window_nlogn_def get_unique_times_def add_time_def advance.simps)

text \<open>
  A cursor loop raises whenever every buff from the cursor on has its key at or before
  \<open>prev_time\<close>: the loop then walks to the end of the list and reads one past it.
\<close>

lemma advance_runs_off:
  "\<forall>m. i \<le> m \<and> m < length bs \<longrightarrow> key (bs ! m) \<le> Fin t \<Longrightarrow>
   advance key t bs i = Inl IndexError"
proof (induction key t bs i rule: advance.induct)
  case (1 key prev_time buffs index)
  show ?case
  proof (cases "index < length buffs")
    case True
    with 1(2) have "key (buffs ! index) \<le> Fin prev_time" by simp
    moreover from 1 True this
    have "advance key prev_time buffs (Suc index) = Inl IndexError" by simp
    ultimately show ?thesis
      using True by (subst advance.simps) simp
  next
    case False
    then show ?thesis by (subst advance.simps) simp
  qed
qed

text \<open>
  With the default window from \<open>-math.inf\<close> to \<open>math.inf\<close> and no finite buff
  boundary there is no time point, and both sweeps raise.
\<close>

lemma sweeps_without_time_points:
  "compute_dps_window_n2 damage_tags atk dfn [plain_buff MInf PInf] MInf PInf
     accumulate normalize' = Inl IndexError"
  "compute_dps_window_nlogn damage_tags atk dfn [plain_buff MInf PInf] MInf PInf
     accumulate normalize' = Inl ValueError"
  by (simp_all add: compute_dps_window_n2_def compute_dps_window_nlogn_def
      get_unique_times_def add_time_def)

text \<open>
  What a cursor loop has done when it returns: it has moved forward over keys that are
  at most \<open>t\<close> and stopped, inside the list, at a later key.
\<close>

lemma advance_spec:
  "advance key t bs i = Inr j \<Longrightarrow>
   i \<le> j \<and> j < length bs \<and> (\<forall>m. i \<le> m \<and> m < j \<longrightarrow> key (bs ! m) \<le> Fin t)
   \<and> \<not> key (bs ! j) \<le> Fin t"
proof (induction key t bs i rule: advance.induct)
  case (1 key prev_time buffs index)
  show ?case
  proof (cases "index < length buffs \<and> key (buffs ! index) \<le> Fin prev_time")
    case True
    with 1(2) have r: "advance key prev_time buffs (Suc index) = Inr j"
      by (subst (asm) advance.simps) simp
    from 1(1) True r have ih: "Suc index \<le> j \<and> j < length buffs \<and>
       (\<forall>m. Suc index \<le> m \<and> m < j \<longrightarrow> key (buffs ! m) \<le> Fin prev_time)
       \<and> \<not> key (buffs ! j) \<le> Fin prev_time"
      by simp
    have "key (buffs ! m) \<le> Fin prev_time" if "index \<le> m \<and> m < j" for m
    proof (cases "m = index")
      case True
      then show ?thesis
        using \<open>index < length buffs \<and> key (buffs ! index) \<le> Fin prev_time\<close> by simp
    next
      case False
      with that have "Suc index \<le> m \<and> m < j" by simp
      with ih show ?thesis by blast
    qed
    with ih show ?thesis by auto
  next
    case False
    with 1(2) show ?thesis
      by (subst (asm) advance.simps) (auto split: if_splits)
  qed
qed

lemma cut_take: "cut key bs t j \<Longrightarrow> take j bs = filter (\<lambda>b. key b \<le> Fin t) bs"
proof -
  assume c: "cut key bs t j"
  have a: "filter (\<lambda>b. key b \<le> Fin t) (take j bs) = take j bs"
    using c by (auto simp: cut_def filter_id_conv in_set_conv_nth)
  have b: "filter (\<lambda>b. key b \<le> Fin t) (drop j bs) = []"
    using c by (auto simp: cut_def filter_empty_conv in_set_conv_nth)
  have "filter (\<lambda>b. key b \<le> Fin t) bs = filter (\<lambda>b. key b \<le> Fin t) (take j bs @ drop j bs)"
    by simp
  also have "\<dots> = take j bs"
    using a b by (simp del: append_take_drop_id)
  finally show ?thesis by simp
qed

text \<open>One guarded cursor loop of the first pass, on a list sorted by the key.\<close>

lemma cursor_step:
  assumes srt: "sorted (map key bs)"
    and le: "i \<le> length bs"
    and before: "\<forall>m<i. key (bs ! m) \<le> Fin t"
    and res: "(if i < length bs then advance key t bs i else Inr i) = Inr j"
  shows "i \<le> j \<and> cut key bs t j"
proof (cases "i < length bs")
  case False
  with le res have "j = i" "i = length bs" by auto
  with before show ?thesis by (simp add: cut_def)
next
  case True
  with res have "advance key t bs i = Inr j" by simp
  from advance_spec[OF this] have ij: "i \<le> j" and jl: "j < length bs"
    and mid: "\<forall>m. i \<le> m \<and> m < j \<longrightarrow> key (bs ! m) \<le> Fin t"
    and stop: "\<not> key (bs ! j) \<le> Fin t"
    by auto
  have "key (bs ! m) \<le> Fin t" if "m < j" for m
    using before mid that by (cases "m < i") auto
  moreover have "\<not> key (bs ! m) \<le> Fin t" if "j \<le> m \<and> m < length bs" for m
  proof -
    have "key (bs ! j) \<le> key (bs ! m)"
      using srt that sorted_nth_mono[of "map key bs" j m] by simp
    with stop show ?thesis by auto
  qed
  ultimately show ?thesis using ij jl by (simp add: cut_def)
qed

subsection \<open>The running cache of the linearithmic sweep\<close>

lemma sweep_cache_tracks:
  assumes "add_s \<le> add_e" "add_e \<le> length A" "sub_s \<le> sub_e" "sub_e \<le> length S"
    and "tracks A S c add_s sub_s"
  shows "\<exists>c'. sweep_cache A S c ((t_0, t_1), (add_s, add_e, sub_s, sub_e)) = Inr c'
           \<and> tracks A S c' add_e sub_e"
proof -
  obtain c1 where
    c1: "(if add_e > add_s then add_buffs_range c A add_s add_e else Inr c) = Inr c1"
      "\<forall>f. field_of f c1 = field_of f c + effects (take (add_e - add_s) (drop add_s A)) f"
    using add_buffs_range_field[OF assms(1,2), of c] by (cases "add_e > add_s") auto
  obtain c2 where
    c2: "(if sub_e > sub_s then remove_buffs_range c1 S sub_s sub_e else Inr c1) = Inr c2"
      "\<forall>f. field_of f c2 = field_of f c1 - effects (take (sub_e - sub_s) (drop sub_s S)) f"
    using remove_buffs_range_field[OF assms(3,4), of c1] by (cases "sub_e > sub_s") auto
  have "tracks A S c2 add_e sub_e"
    using assms(5) c1(2) c2(2)
    by (simp add: tracks_def effects_take_split[OF assms(1)] effects_take_split[OF assms(3)])
  moreover have "sweep_cache A S c ((t_0, t_1), (add_s, add_e, sub_s, sub_e)) = Inr c2"
    using c1(1) c2(1) by (simp add: sweep_cache_def)
  ultimately show ?thesis by blast
qed

text \<open>
  The invariant of the two passes together, by induction on the time points that are
  still to come: after the sub-interval \<open>k\<close> the running cache holds the baseline, plus
  the buffs started by the beginning of that sub-interval, less the buffs ended by then.
\<close>

lemma sweep_invariant:
  assumes sA: "sorted (map b_start A)" and sS: "sorted (map b_end S)"
  shows "build_windows A S prev ai si tps = Inr ws \<Longrightarrow> sorted (prev # tps) \<Longrightarrow>
    ai \<le> length A \<Longrightarrow> \<forall>m<ai. b_start (A ! m) \<le> Fin prev \<Longrightarrow>
    si \<le> length S \<Longrightarrow> \<forall>m<si. b_end (S ! m) \<le> Fin prev \<Longrightarrow>
    tracks A S c ai si \<Longrightarrow> k < length ws \<Longrightarrow>
    \<exists>c'. running_cache A S c (take (Suc k) ws) = Inr c' \<and>
      (\<forall>f. field_of f c' = field_of f baseline
          + effects (filter (\<lambda>b. b_start b \<le> Fin (fst (fst (ws ! k)))) A) f
          - effects (filter (\<lambda>b. b_end b \<le> Fin (fst (fst (ws ! k)))) S) f)"
proof (induction tps arbitrary: prev ai si c ws k)
  case Nil
  then show ?case by simp
next
  case (Cons curr rest)
  from Cons.prems(1) obtain ai' si' ws' where
    a: "(if ai < length A then advance b_start prev A ai else Inr ai) = Inr ai'" and
    s: "(if si < length S then advance b_end prev S si else Inr si) = Inr si'" and
    r: "build_windows A S curr ai' si' rest = Inr ws'" and
    w: "ws = ((prev, curr), (ai, ai', si, si')) # ws'"
    by (auto split: sum.splits)
  from cursor_step[OF sA Cons.prems(3,4) a]
  have ca: "ai \<le> ai'" "cut b_start A prev ai'" by auto
  from cursor_step[OF sS Cons.prems(5,6) s]
  have cs: "si \<le> si'" "cut b_end S prev si'" by auto
  from ca(2) cs(2) have len: "ai' \<le> length A" "si' \<le> length S"
    by (auto simp: cut_def)
  from sweep_cache_tracks[OF ca(1) len(1) cs(1) len(2) Cons.prems(7), of prev curr]
  obtain c1 where c1: "sweep_cache A S c ((prev, curr), (ai, ai', si, si')) = Inr c1"
    "tracks A S c1 ai' si'" by blast
  show ?case
  proof (cases k)
    case 0
    have "running_cache A S c (take (Suc k) ws) = Inr c1"
      using 0 w c1(1) by simp
    moreover have "\<forall>f. field_of f c1 = field_of f baseline
          + effects (filter (\<lambda>b. b_start b \<le> Fin prev) A) f
          - effects (filter (\<lambda>b. b_end b \<le> Fin prev) S) f"
      using c1(2) cut_take[OF ca(2)] cut_take[OF cs(2)] by (simp add: tracks_def)
    ultimately show ?thesis using 0 w by simp
  next
    case (Suc k')
    have pc: "prev \<le> curr" and srt: "sorted (curr # rest)"
      using Cons.prems(2) by auto
    have b1: "\<forall>m<ai'. b_start (A ! m) \<le> Fin curr"
      using ca(2) pc by (auto simp: cut_def intro: le_Fin_trans)
    have b2: "\<forall>m<si'. b_end (S ! m) \<le> Fin curr"
      using cs(2) pc by (auto simp: cut_def intro: le_Fin_trans)
    have k': "k' < length ws'"
      using Cons.prems(8) Suc w by simp
    from Cons.IH[OF r srt len(1) b1 len(2) b2 c1(2) k']
    obtain c' where c': "running_cache A S c1 (take (Suc k') ws') = Inr c'"
      "\<forall>f. field_of f c' = field_of f baseline
          + effects (filter (\<lambda>b. b_start b \<le> Fin (fst (fst (ws' ! k')))) A) f
          - effects (filter (\<lambda>b. b_end b \<le> Fin (fst (fst (ws' ! k')))) S) f" by blast
    have "running_cache A S c (take (Suc k) ws) = Inr c'"
      using Suc w c1(1) c'(1) by simp
    then show ?thesis using c'(2) Suc w by simp
  qed
qed

text \<open>
  On sorted time points, the running cache after sub-interval \<open>k\<close> is the cache that the
  quadratic sweep builds at the start point of that sub-interval.
\<close>

lemma running_cache_window:
  assumes wf: "\<forall>b\<in>set buffs. b_start b < b_end b"
    and srt: "sorted (prev_time # rest)"
    and bw: "build_windows (sort_key b_start buffs) (sort_key b_end buffs) prev_time 0 0 rest
               = Inr windows"
    and k: "k < length windows"
  shows "running_cache (sort_key b_start buffs) (sort_key b_end buffs)
           (generate_cache (Some [])) (take (Suc k) windows)
         = Inr (generate_cache (Some (window_buffs buffs (fst (fst (windows ! k))))))"
proof -
  let ?A = "sort_key b_start buffs" and ?S = "sort_key b_end buffs"
  have t0: "tracks ?A ?S (generate_cache (Some [])) 0 0"
    by (simp add: tracks_def generate_cache_field)
  from sweep_invariant[of ?A ?S prev_time 0 0 rest windows "generate_cache (Some [])" k,
      OF _ _ bw srt _ _ _ _ t0 k]
  obtain c' where
    c': "running_cache ?A ?S (generate_cache (Some [])) (take (Suc k) windows) = Inr c'"
      "\<forall>f. field_of f c' = field_of f baseline
          + effects (filter (\<lambda>b. b_start b \<le> Fin (fst (fst (windows ! k)))) ?A) f
          - effects (filter (\<lambda>b. b_end b \<le> Fin (fst (fst (windows ! k)))) ?S) f"
    by auto
  have "c' = generate_cache (Some (window_buffs buffs (fst (fst (windows ! k)))))"
  proof (rule cache_eqI)
    fix f
    show "field_of f c'
            = field_of f (generate_cache (Some (window_buffs buffs (fst (fst (windows ! k))))))"
      using c'(2) active_effects[OF wf, of "fst (fst (windows ! k))" f]
      by (simp add: effects_filter_sort generate_cache_field)
  qed
  with c'(1) show ?thesis by simp
qed






subsection \<open>Where the two sweeps agree\<close>

text \<open>The time points do not depend on the order of the buffs, and none is repeated.\<close>

lemma set_add_time:
  "set (add_time ws we t ut) =
     set ut \<union> (if \<not> isinf t \<and> ws < t \<and> t < we then {fin t} else {})"
  by (auto simp: add_time_def)

lemma distinct_add_time: "distinct ut \<Longrightarrow> distinct (add_time ws we t ut)"
  by (simp add: add_time_def)

lemma set_time_loop:
  "set (foldl (\<lambda>unique_times buff.
                add_time ws we (b_end buff) (add_time ws we (b_start buff) unique_times))
          ut buffs)
   = set ut \<union> (\<Union>b\<in>set buffs.
        (if \<not> isinf (b_start b) \<and> ws < b_start b \<and> b_start b < we then {fin (b_start b)} else {})
      \<union> (if \<not> isinf (b_end b) \<and> ws < b_end b \<and> b_end b < we then {fin (b_end b)} else {}))"
proof (induction buffs arbitrary: ut)
  case Nil
  then show ?case by simp
next
  case (Cons b buffs)
  show ?case
    unfolding foldl_Cons Cons.IH set_add_time by auto
qed

lemma distinct_time_loop:
  "distinct ut \<Longrightarrow>
   distinct (foldl (\<lambda>unique_times buff.
                add_time ws we (b_end buff) (add_time ws we (b_start buff) unique_times))
          ut buffs)"
  by (induction buffs arbitrary: ut) (simp_all add: distinct_add_time)

lemma isinf_fin_inject: "\<not> isinf x \<Longrightarrow> \<not> isinf y \<Longrightarrow> (fin x = fin y) = (x = y)"
  by (cases x; cases y) simp_all

lemma distinct_get_unique_times:
  "window_start \<noteq> window_end \<Longrightarrow> distinct (get_unique_times buffs window_start window_end)"
  unfolding get_unique_times_def Let_def
  by (rule distinct_time_loop) (simp add: isinf_fin_inject)

lemma set_get_unique_times_sort:
  "set (get_unique_times (sort_key key buffs) window_start window_end)
     = set (get_unique_times buffs window_start window_end)"
  by (simp add: get_unique_times_def Let_def set_time_loop)

lemma sort_get_unique_times_sort:
  assumes "window_start \<noteq> window_end"
  shows "sort (get_unique_times (sort_key key buffs) window_start window_end)
           = sort (get_unique_times buffs window_start window_end)"
  by (rule sorted_distinct_set_unique)
     (simp_all add: distinct_get_unique_times[OF assms] set_get_unique_times_sort)

text \<open>On strictly increasing time points both sweeps form the same sub-intervals.\<close>

lemma build_windows_intervals:
  "build_windows A S prev ai si tps = Inr ws \<Longrightarrow> sorted_wrt (<) (prev # tps) \<Longrightarrow>
   map fst ws = n2_windows prev tps"
proof (induction tps arbitrary: prev ai si ws)
  case Nil
  then show ?case by simp
next
  case (Cons curr rest)
  from Cons.prems(1) obtain ai' si' ws' where
    r: "build_windows A S curr ai' si' rest = Inr ws'" and
    w: "ws = ((prev, curr), (ai, ai', si, si')) # ws'"
    by (auto split: sum.splits)
  from Cons.prems(2) have "prev < curr" "sorted_wrt (<) (curr # rest)" by auto
  with Cons.IH[OF r] w show ?case by simp
qed

text \<open>
  The second pass with caches that are, at every sub-interval, the caches of the
  quadratic sweep, is the timeline loop of the quadratic sweep.
\<close>

lemma nlogn_sweep_is_n2_sweep:
  "\<forall>k<length ws. running_cache A S c (take (Suc k) ws)
       = Inr (generate_cache (Some (window_buffs buffs (fst (fst (ws ! k)))))) \<Longrightarrow>
   nlogn_sweep damage_tags atk dfn A S normalize' c results ws
     = n2_sweep damage_tags atk dfn buffs normalize' results (map fst ws)"
proof (induction ws arbitrary: c results)
  case Nil
  then show ?case by simp
next
  case (Cons w ws)
  obtain t_0 t_1 idx where w: "w = ((t_0, t_1), idx)"
    by (metis surj_pair)
  let ?G = "generate_cache (Some (window_buffs buffs t_0))"
  from Cons.prems have "running_cache A S c (take (Suc 0) (w # ws)) = Inr ?G"
    using w by fastforce
  then have sc: "sweep_cache A S c w = Inr ?G"
    by (simp split: sum.splits)
  have "\<forall>k<length ws. running_cache A S ?G (take (Suc k) ws)
       = Inr (generate_cache (Some (window_buffs buffs (fst (fst (ws ! k))))))"
  proof (intro allI impI)
    fix k assume "k < length ws"
    then have "Suc k < length (w # ws)" by simp
    with Cons.prems have "running_cache A S c (take (Suc (Suc k)) (w # ws))
       = Inr (generate_cache (Some (window_buffs buffs (fst (fst ((w # ws) ! Suc k))))))"
      by blast
    then show "running_cache A S ?G (take (Suc k) ws)
       = Inr (generate_cache (Some (window_buffs buffs (fst (fst (ws ! k))))))"
      using sc by simp
  qed
  from Cons.IH[OF this] show ?case
    using sc w by (simp add: Let_def split: sum.splits)
qed

text \<open>
  For buffs with \<open>start < end\<close> and a window whose bounds differ, a value returned by the
  linearithmic sweep is the value that the quadratic sweep returns. The sweeps differ only
  where the linearithmic sweep raises, or where the bounds of the window coincide.
\<close>

lemma sweeps_agree_when_nlogn_returns:
  assumes wf: "\<forall>b\<in>set buffs. b_start b < b_end b"
    and ne: "window_start \<noteq> window_end"
    and res: "compute_dps_window_nlogn damage_tags atk dfn buffs window_start window_end
                accumulate normalize' = Inr r"
  shows "compute_dps_window_n2 damage_tags atk dfn buffs window_start window_end
           accumulate normalize' = Inr r"
proof -
  let ?A = "sort_key b_start buffs" and ?S = "sort_key b_end buffs"
  let ?tp = "sort (get_unique_times buffs window_start window_end)"
  have tpA: "sort (get_unique_times ?A window_start window_end) = ?tp"
    by (rule sort_get_unique_times_sort[OF ne])
  from res tpA obtain prev_time rest where tp: "?tp = prev_time # rest"
    by (cases ?tp) (auto simp: compute_dps_window_nlogn_def Let_def)
  from res tpA tp obtain windows where
    bw: "build_windows ?A ?S prev_time 0 0 rest = Inr windows"
    by (cases "build_windows ?A ?S prev_time 0 0 rest")
       (auto simp: compute_dps_window_nlogn_def Let_def)
  have srt: "sorted (prev_time # rest)"
    using sorted_sort[of "get_unique_times buffs window_start window_end"] tp by simp
  have "distinct ?tp"
    by (simp add: distinct_get_unique_times[OF ne])
  with tp have "distinct (prev_time # rest)"
    by simp
  with srt have strict: "sorted_wrt (<) (prev_time # rest)"
    by (simp only: strict_sorted_iff)
  have iv: "map fst windows = n2_windows prev_time (prev_time # rest)"
    using build_windows_intervals[OF bw strict] by simp
  have "\<forall>k<length windows. running_cache ?A ?S (generate_cache (Some [])) (take (Suc k) windows)
       = Inr (generate_cache (Some (window_buffs buffs (fst (fst (windows ! k))))))"
    using running_cache_window[OF wf srt bw] by blast
  from nlogn_sweep_is_n2_sweep[OF this]
  have sw: "nlogn_sweep damage_tags atk dfn ?A ?S normalize' (generate_cache (Some []))
              (replicate (length damage_tags) 0) windows
            = n2_sweep damage_tags atk dfn buffs normalize'
                (replicate (length damage_tags) 0) (n2_windows prev_time (prev_time # rest))"
    by (simp only: iv)
  from res show ?thesis
    by (simp add: compute_dps_window_nlogn_def compute_dps_window_n2_def Let_def tpA tp bw sw
        del: n2_windows.simps)
qed

text \<open>
  In a window of width zero the linearithmic sweep still evaluates one sub-interval: a
  damage source that is always on is counted once, unweighted.
\<close>

lemma nlogn_zero_width_sustained:
  "compute_dps_window_nlogn [sustained] 100000 10000 [] (Fin 5) (Fin 5) False True
     = Inr (PerTag [118250])"
proof -
  have "generate_cache (Some []) = baseline\<lparr>attack := 100\<rparr>"
    by (simp add: generate_cache_def add_buffs_opt_def add_buffs_def baseline_attack)
  then show ?thesis
    by (simp add: compute_dps_window_nlogn_def get_unique_times_degenerate sweep_cache_def
        tag_step_def sustained_def avg_base Let_def)
qed

text \<open>
  Claim C1. The two sweeps are claimed to return equal results on every input. For one
  attack buff from 2 to 5, the window from 0 to 10 and one damage source that is always
  on, the quadratic sweep returns 2 * 118250 + 3 * 139750 + 5 * 118250 and the
  linearithmic sweep raises \<open>IndexError\<close>: the results agree only where the
  linearithmic sweep returns at all (lemma \<open>sweeps_agree_when_nlogn_returns\<close>).
\<close>

theorem dps_window_algorithms_diverge:
  "compute_dps_window_n2 [sustained] 100000 10000 [atk_buff (Fin 2) (Fin 5) 20]
     (Fin 0) (Fin 10) True True = Inr (Total 1247000)
   \<and> compute_dps_window_nlogn [sustained] 100000 10000 [atk_buff (Fin 2) (Fin 5) 20]
     (Fin 0) (Fin 10) True True = Inl IndexError"
proof -
  have tp: "get_unique_times [atk_buff (Fin 2) (Fin 5) 20] (Fin 0) (Fin 10) = [0, 10, 2, 5]"
    by (simp add: get_unique_times_def add_time_def)
  have c0: "generate_cache (Some (window_buffs [atk_buff (Fin 2) (Fin 5) 20] 0))
              = baseline\<lparr>attack := 100\<rparr>"
    by (simp add: window_buffs_def generate_cache_def add_buffs_opt_def add_buffs_def
        baseline_attack)
  have c2: "generate_cache (Some (window_buffs [atk_buff (Fin 2) (Fin 5) 20] 2))
              = baseline\<lparr>attack := 120\<rparr>"
    by (simp add: window_buffs_def generate_cache_def add_buffs_opt_def add_buffs_def
        add_buff_atk_buff) (simp add: baseline_def)
  have c5: "generate_cache (Some (window_buffs [atk_buff (Fin 2) (Fin 5) 20] 5))
              = baseline\<lparr>attack := 100\<rparr>"
    by (simp add: window_buffs_def generate_cache_def add_buffs_opt_def add_buffs_def
        baseline_attack)
  have n2: "compute_dps_window_n2 [sustained] 100000 10000 [atk_buff (Fin 2) (Fin 5) 20]
     (Fin 0) (Fin 10) True True = Inr (Total 1247000)"
    by (simp add: compute_dps_window_n2_def tp c0 c2 c5 tag_step_def sustained_def avg_base
        Let_def)
  have nlogn: "compute_dps_window_nlogn [sustained] 100000 10000 [atk_buff (Fin 2) (Fin 5) 20]
     (Fin 0) (Fin 10) True True = Inl IndexError"
    by (simp add: compute_dps_window_nlogn_def get_unique_times_def add_time_def advance.simps)
  from n2 nlogn show ?thesis by simp
qed

end
